theory Spec2Isabelle
  imports Main "HOL-Library.Char_ord" "HOL-Library.List_Lexorder" "HOL-Library.Sublist"
    "HOL-Library.Multiset"
begin

section \<open>Python strings, slices and sorting\<close>

text \<open>
  Strings are byte lists (UTF-8). The whitespace class is the ASCII part of what
  \<^verbatim>\<open>str.isspace\<close>, \<^verbatim>\<open>str.strip\<close>, \<^verbatim>\<open>str.split\<close> and the regular expression \<^verbatim>\<open>\s\<close> accept;
  \<^verbatim>\<open>str.lower\<close> is modelled on the ASCII letters and leaves every other byte as it is.
  String comparison is lexicographic on bytes, which for UTF-8 is the order of code points.
\<close>

definition is_space :: "char \<Rightarrow> bool" where
  "is_space c = (c \<in> set [CHR 0x09, CHR 0x0A, CHR 0x0B, CHR 0x0C, CHR 0x0D,
                           CHR 0x1C, CHR 0x1D, CHR 0x1E, CHR 0x1F, CHR 0x20])"

definition py_strip :: "string \<Rightarrow> string" where
  "py_strip s = rev (dropWhile is_space (rev (dropWhile is_space s)))"

fun split_acc :: "string \<Rightarrow> string \<Rightarrow> string list" where
  "split_acc cur [] = (if cur = [] then [] else [cur])"
| "split_acc cur (c # cs) =
     (if is_space c then (if cur = [] then split_acc [] cs else cur # split_acc [] cs)
      else split_acc (cur @ [c]) cs)"

definition py_split :: "string \<Rightarrow> string list" where
  "py_split s = split_acc [] s"

fun py_join :: "string \<Rightarrow> string list \<Rightarrow> string" where
  "py_join sep [] = []"
| "py_join sep [x] = x"
| "py_join sep (x # y # ys) = x @ sep @ py_join sep (y # ys)"

definition lower_char :: "char \<Rightarrow> char" where
  "lower_char c =
     (case map_of (zip ''ABCDEFGHIJKLMNOPQRSTUVWXYZ'' ''abcdefghijklmnopqrstuvwxyz'') c of
        Some d \<Rightarrow> d
      | None \<Rightarrow> c)"

definition py_lower :: "string \<Rightarrow> string" where
  "py_lower s = map lower_char s"

text \<open>\<^verbatim>\<open>needle in haystack\<close> on strings.\<close>

fun py_in :: "string \<Rightarrow> string \<Rightarrow> bool" where
  "py_in needle [] = (needle = [])"
| "py_in needle (c # cs) = (prefix needle (c # cs) \<or> py_in needle cs)"

definition py_startswith :: "string \<Rightarrow> string \<Rightarrow> bool" where
  "py_startswith s p = prefix p s"

definition py_endswith :: "string \<Rightarrow> string \<Rightarrow> bool" where
  "py_endswith s p = suffix p s"

fun py_replace :: "string \<Rightarrow> string \<Rightarrow> string \<Rightarrow> string" where
  "py_replace old new [] = (if old = [] then new else [])"
| "py_replace old new (c # cs) =
     (if old = [] then new @ c # py_replace old new cs
      else if prefix old (c # cs) then new @ py_replace old new (drop (length old - 1) cs)
      else c # py_replace old new cs)"

text \<open>
  A slice \<^verbatim>\<open>xs[start:stop]\<close> with integer bounds: a negative bound counts from the end,
  and every bound is clamped into the list.
\<close>

definition py_index_clamp :: "nat \<Rightarrow> int \<Rightarrow> nat" where
  "py_index_clamp n i = (if i < 0 then nat (max 0 (int n + i)) else min n (nat i))"

definition py_slice :: "'a list \<Rightarrow> int \<Rightarrow> int \<Rightarrow> 'a list" where
  "py_slice xs start stop =
     (let n = length xs; s = py_index_clamp n start; e = py_index_clamp n stop
      in take (e - s) (drop s xs))"

definition py_slice_to :: "'a list \<Rightarrow> int \<Rightarrow> 'a list" where
  "py_slice_to xs stop = py_slice xs 0 stop"

text \<open>
  \<^verbatim>\<open>sorted(xs, key=k)\<close> is a stable ascending sort. With \<^verbatim>\<open>reverse=True\<close> the result is
  descending and elements with equal keys still keep their original order: the list is
  reversed, sorted stably, and reversed again.
\<close>

definition py_sorted :: "('a \<Rightarrow> 'k::linorder) \<Rightarrow> 'a list \<Rightarrow> 'a list" where
  "py_sorted key xs = sort_key key xs"

definition py_sorted_reverse :: "('a \<Rightarrow> 'k::linorder) \<Rightarrow> 'a list \<Rightarrow> 'a list" where
  "py_sorted_reverse key xs = rev (sort_key key (rev xs))"

text \<open>The regular-expression substitutions of \<^verbatim>\<open>_clean_html\<close>.\<close>

function remove_tags :: "string \<Rightarrow> string" where
  "remove_tags [] = []"
| "remove_tags (c # cs) =
     (if c = CHR ''<''
         \<and> takeWhile (\<lambda>x. x \<noteq> CHR ''>'') cs \<noteq> []
         \<and> dropWhile (\<lambda>x. x \<noteq> CHR ''>'') cs \<noteq> []
      then remove_tags (tl (dropWhile (\<lambda>x. x \<noteq> CHR ''>'') cs))
      else c # remove_tags cs)"
  by pat_completeness auto
termination
proof (relation "measure length")
  show "wf (measure length)" by simp
next
  fix c :: char and cs :: string
  have "length (tl (dropWhile (\<lambda>x. x \<noteq> CHR ''>'') cs)) \<le> length cs"
    using length_dropWhile_le [of "\<lambda>x. x \<noteq> CHR ''>''" cs] by simp
  then show "(tl (dropWhile (\<lambda>x. x \<noteq> CHR ''>'') cs), c # cs) \<in> measure length"
    by simp
next
  fix c :: char and cs :: string
  show "(cs, c # cs) \<in> measure length" by simp
qed

function collapse_ws :: "string \<Rightarrow> string" where
  "collapse_ws [] = []"
| "collapse_ws (c # cs) =
     (if is_space c then CHR '' '' # collapse_ws (dropWhile is_space cs)
      else c # collapse_ws cs)"
  by pat_completeness auto
termination
proof (relation "measure length")
  show "wf (measure length)" by simp
next
  fix c :: char and cs :: string
  show "(dropWhile is_space cs, c # cs) \<in> measure length"
    using length_dropWhile_le [of is_space cs] by simp
next
  fix c :: char and cs :: string
  show "(cs, c # cs) \<in> measure length" by simp
qed

definition clean_html :: "string \<Rightarrow> string" where
  "clean_html text = py_strip (collapse_ws (remove_tags text))"

section \<open>Feed entries, items and the source catalog\<close>

text \<open>
  A parsed feed entry is an object whose attributes may be missing; an item is the
  dictionary both aggregators build from it. The key \<^verbatim>\<open>published_parsed\<close> exists only in
  the items of the \<^verbatim>\<open>NewsFetcher\<close> class. Timestamps are integers (microseconds).
  The time tuple \<^verbatim>\<open>published_parsed\<close> of an entry is one that \<^verbatim>\<open>datetime\<close> accepts, with
  its timestamp, or one that it rejects with an exception (a leap second, say).
\<close>

datatype time_tuple = TimeTuple int | BadTimeTuple

record entry =
  e_id :: "string option"
  e_guid :: "string option"
  e_link :: "string option"
  e_title :: "string option"
  e_summary :: "string option"
  e_description :: "string option"
  e_published :: "string option"
  e_published_parsed :: "time_tuple option"

record item =
  title :: string
  desc :: string
  link :: string
  date :: string
  published_parsed :: "int option"
  sourceUrl :: string
  sourceId :: string
  sourceName :: string
  guid :: string

text \<open>
  The catalog tables \<^verbatim>\<open>ALL_FEEDS\<close> and the display names are configuration; the functions
  below take them as a parameter.
\<close>

record catalog =
  ALL_FEEDS :: "string \<rightharpoonup> string"
  SOURCE_DISPLAY_NAMES :: "string \<rightharpoonup> string"

text \<open>
  What the network gives for a feed URL: the parsed entries, or an exception. The
  supply of \<^verbatim>\<open>uuid.uuid4()\<close> tokens is a sequence, read at the index of the call.
\<close>

datatype fetch_error = FetchFailed

type_synonym feed_source = "string \<Rightarrow> fetch_error + entry list"

definition app_untitled :: string where
  "app_untitled =
     [CHR 0xD0, CHR 0xB1, CHR 0xD0, CHR 0xB5, CHR 0xD0, CHR 0xB7, CHR 0x20, CHR 0xD0,
      CHR 0xBD, CHR 0xD0, CHR 0xB0, CHR 0xD0, CHR 0xB7, CHR 0xD0, CHR 0xB2, CHR 0xD0,
      CHR 0xB0, CHR 0xD0, CHR 0xBD, CHR 0xD0, CHR 0xB8, CHR 0xD1, CHR 0x8F]"

definition app_no_description :: string where
  "app_no_description =
     [CHR 0xD0, CHR 0xBD, CHR 0xD0, CHR 0xB5, CHR 0xD1, CHR 0x82, CHR 0x20, CHR 0xD0,
      CHR 0xBE, CHR 0xD0, CHR 0xBF, CHR 0xD0, CHR 0xB8, CHR 0xD1, CHR 0x81, CHR 0xD0,
      CHR 0xB0, CHR 0xD0, CHR 0xBD, CHR 0xD0, CHR 0xB8, CHR 0xD1, CHR 0x8F]"

definition t1_untitled :: string where
  "t1_untitled =
     [CHR 0xD0, CHR 0x91, CHR 0xD0, CHR 0xB5, CHR 0xD0, CHR 0xB7, CHR 0x20, CHR 0xD0,
      CHR 0xBD, CHR 0xD0, CHR 0xB0, CHR 0xD0, CHR 0xB7, CHR 0xD0, CHR 0xB2, CHR 0xD0,
      CHR 0xB0, CHR 0xD0, CHR 0xBD, CHR 0xD0, CHR 0xB8, CHR 0xD1, CHR 0x8F]"

definition t1_no_description :: string where
  "t1_no_description =
     [CHR 0xD0, CHR 0x9D, CHR 0xD0, CHR 0xB5, CHR 0xD1, CHR 0x82, CHR 0x20, CHR 0xD0,
      CHR 0xBE, CHR 0xD0, CHR 0xBF, CHR 0xD0, CHR 0xB8, CHR 0xD1, CHR 0x81, CHR 0xD0,
      CHR 0xB0, CHR 0xD0, CHR 0xBD, CHR 0xD0, CHR 0xB8, CHR 0xD1, CHR 0x8F]"

definition get_or :: "'a option \<Rightarrow> 'a \<Rightarrow> 'a" where
  "get_or v d = (case v of Some x \<Rightarrow> x | None \<Rightarrow> d)"

record saved_article =
  sa_sourceUrl :: string
  sa_preview100 :: string
  sa_fullText :: string
  sa_savedAt :: string
  sa_sourceName :: string
  sa_title :: string
  sa_id :: "string option"

text \<open>
  The file \<^verbatim>\<open>saved/articles.json\<close>: it may not exist, it may hold something that is not
  JSON, or it holds the list of saved records. Records carry every key the writers put
  there. A write either succeeds or fails when the file is opened, which leaves the
  file as it was.
\<close>

datatype file_state = Missing | Corrupt | Articles "saved_article list"

datatype io_error = IOError

datatype db_error = DBError

section \<open>The web service (app0.py)\<close>

definition CACHE_DURATION_MINUTES :: int where
  "CACHE_DURATION_MINUTES = 5"

definition PAGE_SIZE :: int where
  "PAGE_SIZE = 10"

definition MAX_NEWS_ITEMS :: int where
  "MAX_NEWS_ITEMS = 500"

text \<open>One minute, in the unit of the clock (microseconds).\<close>

definition minute :: int where
  "minute = 60000000"

record app_state =
  app_news :: "item list"
  app_seen_news :: "string set"
  app_saved_links :: "string set"
  app_last_fetch_time :: "int option"

definition get_source_display_name :: "catalog \<Rightarrow> string \<Rightarrow> string" where
  "get_source_display_name cat source_id =
     (if py_startswith source_id ''custom_'' \<and> py_endswith source_id ''_name''
      then get_or (ALL_FEEDS cat source_id)
             (py_replace ''custom_'' '''' (py_replace ''_name'' '''' source_id))
      else if py_startswith source_id ''custom_''
      then get_or (ALL_FEEDS cat (source_id @ ''_name''))
             (py_replace ''custom_'' '''' source_id)
      else get_or (SOURCE_DISPLAY_NAMES cat source_id) source_id)"

text \<open>
  \<^verbatim>\<open>load_selected_feeds\<close>: the rows of the table \<^verbatim>\<open>favorite_sources\<close> as a set, here a
  duplicate-free list in the order the set is iterated; a database error raises.
\<close>

definition load_selected_feeds :: "db_error + string list \<Rightarrow> db_error + string list" where
  "load_selected_feeds db =
     (case db of
        Inl err \<Rightarrow> Inl err
      | Inr rows \<Rightarrow> Inr (if remdups rows = [] then [''lenta'', ''ria'', ''bbc''] else remdups rows))"

definition load_saved_articles :: "file_state \<Rightarrow> saved_article list" where
  "load_saved_articles f =
     (case f of Missing \<Rightarrow> [] | Corrupt \<Rightarrow> [] | Articles xs \<Rightarrow> xs)"

text \<open>
  \<^verbatim>\<open>save_article(article, link)\<close>: the result is the returned flag and the file afterwards,
  or the exception of a failed write.
\<close>

definition save_article :: "bool \<Rightarrow> saved_article \<Rightarrow> string \<Rightarrow> file_state
    \<Rightarrow> io_error + (bool \<times> file_state)" where
  "save_article write_ok article lnk f =
     (let saved_articles = load_saved_articles f
      in if list_ex (\<lambda>a. sa_sourceUrl a = lnk) saved_articles then Inr (False, f)
         else if write_ok then Inr (True, Articles (saved_articles @ [article]))
         else Inl IOError)"

text \<open>
  The loop of \<^verbatim>\<open>fetch_rss_feeds\<close>. The accumulator holds the local variables, the number
  of \<^verbatim>\<open>uuid4\<close> calls made so far (the default argument is evaluated for every entry) and
  the URLs requested from the network. An exception of the network or of the parser
  leaves the source without items.
\<close>

record merge_acc =
  acc_news_items :: "item list"
  acc_seen_guids :: "string set"
  acc_seen_links :: "string set"
  acc_uuid_calls :: nat
  acc_requested :: "string list"

definition app_entry_guid :: "(nat \<Rightarrow> string) \<Rightarrow> nat \<Rightarrow> entry \<Rightarrow> string" where
  "app_entry_guid uuid4 k e = get_or (e_id e) (get_or (e_link e) (uuid4 k))"

definition app_entry_link :: "entry \<Rightarrow> string" where
  "app_entry_link e = get_or (e_link e) ''#''"

definition app_make_item :: "catalog \<Rightarrow> string \<Rightarrow> string \<Rightarrow> string \<Rightarrow> entry \<Rightarrow> item" where
  "app_make_item cat feed_id url g e =
     \<lparr> title = get_or (e_title e) app_untitled,
       desc = get_or (e_summary e) (get_or (e_description e) app_no_description),
       link = app_entry_link e,
       date = get_or (e_published e) '''',
       published_parsed = None,
       sourceUrl = url,
       sourceId = feed_id,
       sourceName = get_source_display_name cat feed_id,
       guid = g \<rparr>"

definition app_entry_step :: "catalog \<Rightarrow> (nat \<Rightarrow> string) \<Rightarrow> string \<Rightarrow> string
    \<Rightarrow> merge_acc \<Rightarrow> entry \<Rightarrow> merge_acc" where
  "app_entry_step cat uuid4 feed_id url acc e =
     (let g = app_entry_guid uuid4 (acc_uuid_calls acc) e;
          l = app_entry_link e;
          acc1 = acc\<lparr>acc_uuid_calls := Suc (acc_uuid_calls acc)\<rparr>
      in if g \<in> acc_seen_guids acc \<or> l \<in> acc_seen_links acc then acc1
         else acc1\<lparr>acc_seen_guids := insert g (acc_seen_guids acc),
                   acc_seen_links := insert l (acc_seen_links acc),
                   acc_news_items := acc_news_items acc @ [app_make_item cat feed_id url g e]\<rparr>)"

definition app_feed_step :: "catalog \<Rightarrow> feed_source \<Rightarrow> (nat \<Rightarrow> string)
    \<Rightarrow> merge_acc \<Rightarrow> string \<Rightarrow> merge_acc" where
  "app_feed_step cat net uuid4 acc feed_id =
     (case ALL_FEEDS cat feed_id of
        None \<Rightarrow> acc
      | Some url \<Rightarrow>
          (let acc1 = acc\<lparr>acc_requested := acc_requested acc @ [url]\<rparr>
           in case net url of
                Inl err \<Rightarrow> acc1
              | Inr entries \<Rightarrow> foldl (app_entry_step cat uuid4 feed_id url) acc1 (take 20 entries)))"

definition app_merge_start :: merge_acc where
  "app_merge_start =
     \<lparr> acc_news_items = [], acc_seen_guids = {}, acc_seen_links = {},
       acc_uuid_calls = 0, acc_requested = [] \<rparr>"

definition app_merge :: "catalog \<Rightarrow> feed_source \<Rightarrow> (nat \<Rightarrow> string) \<Rightarrow> string list \<Rightarrow> merge_acc" where
  "app_merge cat net uuid4 selected_feeds =
     foldl (app_feed_step cat net uuid4) app_merge_start selected_feeds"

definition fetch_rss_feeds :: "catalog \<Rightarrow> feed_source \<Rightarrow> (nat \<Rightarrow> string) \<Rightarrow> string list
    \<Rightarrow> item list" where
  "fetch_rss_feeds cat net uuid4 selected_feeds =
     py_slice_to
       (py_sorted_reverse date (acc_news_items (app_merge cat net uuid4 selected_feeds)))
       MAX_NEWS_ITEMS"

definition fetch_rss_requests :: "catalog \<Rightarrow> feed_source \<Rightarrow> (nat \<Rightarrow> string) \<Rightarrow> string list
    \<Rightarrow> string list" where
  "fetch_rss_requests cat net uuid4 selected_feeds =
     acc_requested (app_merge cat net uuid4 selected_feeds)"

text \<open>
  \<^verbatim>\<open>POST /fetch\<close>. The result is the response, the state afterwards and the URLs the
  handler requested from the network.
\<close>

datatype fetch_response = FetchRejected int | FetchOk | FetchError

definition gate_minutes_left :: "int \<Rightarrow> app_state \<Rightarrow> int option" where
  "gate_minutes_left now s =
     (case app_last_fetch_time s of
        None \<Rightarrow> None
      | Some t \<Rightarrow>
          (let elapsed = now - t
           in if elapsed < CACHE_DURATION_MINUTES * minute
              then Some (CACHE_DURATION_MINUTES - elapsed div minute)
              else None))"

definition fetch_news :: "catalog \<Rightarrow> feed_source \<Rightarrow> (nat \<Rightarrow> string) \<Rightarrow> db_error + string list
    \<Rightarrow> int \<Rightarrow> app_state \<Rightarrow> fetch_response \<times> app_state \<times> string list" where
  "fetch_news cat net uuid4 db now s =
     (case gate_minutes_left now s of
        Some minutes_left \<Rightarrow> (FetchRejected minutes_left, s, [])
      | None \<Rightarrow>
          (case load_selected_feeds db of
             Inl err \<Rightarrow> (FetchError, s, [])
           | Inr selected_feeds \<Rightarrow>
               (FetchOk,
                s\<lparr>app_news := fetch_rss_feeds cat net uuid4 selected_feeds,
                  app_last_fetch_time := Some now\<rparr>,
                fetch_rss_requests cat net uuid4 selected_feeds)))"

text \<open>The startup handler; a database error at startup is not caught.\<close>

definition startup_event :: "catalog \<Rightarrow> feed_source \<Rightarrow> (nat \<Rightarrow> string) \<Rightarrow> db_error + string list
    \<Rightarrow> file_state \<Rightarrow> int \<Rightarrow> app_state \<Rightarrow> db_error + app_state" where
  "startup_event cat net uuid4 db f now s =
     (case load_selected_feeds db of
        Inl err \<Rightarrow> Inl err
      | Inr selected_feeds \<Rightarrow>
          (let s1 = s\<lparr>app_saved_links :=
                       set (filter (\<lambda>u. u \<noteq> '''') (map sa_sourceUrl (load_saved_articles f)))\<rparr>
           in if app_news s1 = []
              then Inr (s1\<lparr>app_news := fetch_rss_feeds cat net uuid4 selected_feeds,
                           app_last_fetch_time := Some now\<rparr>)
              else Inr s1))"

text \<open>
  The pagination block of \<^verbatim>\<open>index\<close> and \<^verbatim>\<open>saved_news\<close>: the page, its number and the
  number of pages.
\<close>

definition app_paginate :: "'a list \<Rightarrow> int \<Rightarrow> 'a list \<times> int \<times> int" where
  "app_paginate sorted_news page0 =
     (let total_items = int (length sorted_news);
          total_pages = max 1 ((total_items + PAGE_SIZE - 1) div PAGE_SIZE);
          page = max 1 (min page0 total_pages);
          start_idx = (page - 1) * PAGE_SIZE;
          end_idx = min (start_idx + PAGE_SIZE) total_items
      in (py_slice sorted_news start_idx end_idx, page, total_pages))"

definition app_new_count :: "app_state \<Rightarrow> nat" where
  "app_new_count s =
     sum_list (map (\<lambda>n. 1) (filter (\<lambda>n. link n @ title n \<notin> app_seen_news s) (app_news s)))"

record index_view =
  iv_news :: "item list"
  iv_page :: int
  iv_total_pages :: int
  iv_total_news :: nat
  iv_new_count :: nat

definition index :: "app_state \<Rightarrow> int \<Rightarrow> string \<Rightarrow> string option \<Rightarrow> index_view" where
  "index s page sort_by source =
     (let filtered_news =
            (case source of
               None \<Rightarrow> app_news s
             | Some src \<Rightarrow> if src = '''' then app_news s
                           else filter (\<lambda>n. sourceId n = src) (app_news s));
          sorted_news =
            (if sort_by = ''title'' then py_sorted (\<lambda>x. py_lower (title x)) filtered_news
             else if sort_by = ''source'' then py_sorted (\<lambda>x. py_lower (sourceName x)) filtered_news
             else py_sorted_reverse date filtered_news);
          p = app_paginate sorted_news page
      in \<lparr> iv_news = fst p, iv_page = fst (snd p), iv_total_pages = snd (snd p),
           iv_total_news = length (app_news s), iv_new_count = app_new_count s \<rparr>)"

definition saved_news :: "file_state \<Rightarrow> int \<Rightarrow> saved_article list \<times> int \<times> int" where
  "saved_news f page = app_paginate (load_saved_articles f) page"

definition clear_cache :: "app_state \<Rightarrow> app_state" where
  "clear_cache s = s\<lparr>app_seen_news := {}\<rparr>"

text \<open>
  \<^verbatim>\<open>GET /search\<close>. The parameter is declared with \<^verbatim>\<open>min_length=1\<close>: a shorter one is
  answered by the framework with a validation error and the handler does not run.
\<close>

datatype search_response = ValidationError | SearchResults string "item list"

definition search :: "app_state \<Rightarrow> string \<Rightarrow> search_response" where
  "search s q =
     (if length q < 1 then ValidationError
      else (let query = py_strip q
            in SearchResults query
                 (filter (\<lambda>item. py_in (py_lower query) (py_lower (title item))
                               \<or> py_in (py_lower query) (py_lower (desc item))
                               \<or> py_in (py_lower query) (py_lower (sourceName item)))
                    (app_news s))))"

text \<open>
  \<^verbatim>\<open>POST /save\<close>. The page-text collaborator returns the empty string when it fails.
  The responses are the three notifications and the plain redirect to the main page.
\<close>

datatype save_response = NotifyNotFound | NotifyNoText | RedirectHome | NotifySaveError

definition make_preview :: "string \<Rightarrow> string \<Rightarrow> string" where
  "make_preview ttl full_text =
     (let words = py_split full_text;
          preview100 = (if length words > 100 then py_join '' '' (take 100 words) else full_text)
      in ttl @ ''. '' @ preview100)"

definition save_article_endpoint :: "(string \<Rightarrow> string) \<Rightarrow> string \<Rightarrow> bool \<Rightarrow> string
    \<Rightarrow> app_state \<Rightarrow> file_state \<Rightarrow> save_response \<times> app_state \<times> file_state" where
  "save_article_endpoint fetch_full_text_from_page now_iso write_ok lnk s f =
     (case find (\<lambda>n. link n = lnk) (app_news s) of
        None \<Rightarrow> (NotifyNotFound, s, f)
      | Some article \<Rightarrow>
          (let full_text = fetch_full_text_from_page lnk
           in if full_text = [] then (NotifyNoText, s, f)
              else (let article_data =
                          \<lparr> sa_sourceUrl = lnk,
                            sa_preview100 = make_preview (title article) full_text,
                            sa_fullText = full_text,
                            sa_savedAt = now_iso,
                            sa_sourceName = sourceName article,
                            sa_title = title article,
                            sa_id = None \<rparr>
                    in case save_article write_ok article_data lnk f of
                         Inl err \<Rightarrow> (NotifySaveError, s, f)
                       | Inr (saved, f') \<Rightarrow>
                           (if saved
                            then (RedirectHome,
                                  s\<lparr>app_saved_links := insert lnk (app_saved_links s)\<rparr>, f')
                            else (RedirectHome, s, f')))))"

section \<open>The NewsFetcher class (t1.py)\<close>

text \<open>
  The object's fields, without the database path and the network timeout. Attributes
  set from outside under the name \<^verbatim>\<open><source_id>_name\<close> are the map \<open>custom_attrs\<close>.
  The selected feeds are a set, here the list of its iteration order.
\<close>

record NewsFetcher =
  max_items :: int
  news :: "item list"
  seen_guids :: "string set"
  seen_links :: "string set"
  saved_links :: "string set"
  seen_news_ids :: "string set"
  last_fetch_time :: "int option"
  selected_feeds :: "string list"
  custom_attrs :: "string \<rightharpoonup> string"

definition get_source_name :: "catalog \<Rightarrow> NewsFetcher \<Rightarrow> string \<Rightarrow> string" where
  "get_source_name cat self source_id =
     (case custom_attrs self (source_id @ ''_name'') of
        Some custom_name \<Rightarrow>
          if custom_name \<noteq> [] then custom_name
          else get_or (SOURCE_DISPLAY_NAMES cat source_id) source_id
      | None \<Rightarrow> get_or (SOURCE_DISPLAY_NAMES cat source_id) source_id)"

text \<open>
  \<^verbatim>\<open>_parse_entry\<close>. The exception of a rejected time tuple is caught and the result is
  \<^verbatim>\<open>None\<close>. The argument \<open>now\<close> is the reading of the clock during the call.
\<close>

definition nf_entry_guid :: "entry \<Rightarrow> string" where
  "nf_entry_guid e = get_or (e_id e) (get_or (e_guid e) (get_or (e_link e) ''#''))"

definition parse_entry :: "catalog \<Rightarrow> NewsFetcher \<Rightarrow> int \<Rightarrow> entry \<Rightarrow> string \<Rightarrow> string
    \<Rightarrow> item option" where
  "parse_entry cat self now e feed_id feed_url =
     (case e_published_parsed e of
        Some BadTimeTuple \<Rightarrow> None
      | tt \<Rightarrow>
          Some \<lparr> title = clean_html (get_or (e_title e) t1_untitled),
                 desc = clean_html
                          (get_or (e_summary e) (get_or (e_description e) t1_no_description)),
                 link = get_or (e_link e) ''#'',
                 date = get_or (e_published e) '''',
                 published_parsed = Some (case tt of Some (TimeTuple t) \<Rightarrow> t | _ \<Rightarrow> now),
                 sourceUrl = feed_url,
                 sourceId = feed_id,
                 sourceName = get_source_name cat self feed_id,
                 guid = nf_entry_guid e \<rparr>)"

text \<open>
  The loop of \<^verbatim>\<open>fetch_news\<close>. The accumulator holds \<^verbatim>\<open>all_items\<close>, the two sets of the
  object, the number of entries parsed so far (the index at which the clock is read) and
  the URLs requested. \<^verbatim>\<open>_is_unique\<close> reads the two sets.
\<close>

record fetch_acc =
  all_items :: "item list"
  cur_seen_guids :: "string set"
  cur_seen_links :: "string set"
  parsed_count :: nat
  requested :: "string list"

definition is_unique :: "fetch_acc \<Rightarrow> item \<Rightarrow> bool" where
  "is_unique acc it = (guid it \<notin> cur_seen_guids acc \<and> link it \<notin> cur_seen_links acc)"

definition nf_entry_step :: "catalog \<Rightarrow> NewsFetcher \<Rightarrow> (nat \<Rightarrow> int) \<Rightarrow> string \<Rightarrow> string
    \<Rightarrow> fetch_acc \<Rightarrow> entry \<Rightarrow> fetch_acc" where
  "nf_entry_step cat self clock feed_id url acc e =
     (let acc1 = acc\<lparr>parsed_count := Suc (parsed_count acc)\<rparr>
      in case parse_entry cat self (clock (parsed_count acc)) e feed_id url of
           None \<Rightarrow> acc1
         | Some it \<Rightarrow>
             if is_unique acc it
             then acc1\<lparr>all_items := all_items acc @ [it],
                       cur_seen_guids := insert (guid it) (cur_seen_guids acc),
                       cur_seen_links := insert (link it) (cur_seen_links acc)\<rparr>
             else acc1)"

definition nf_feed_step :: "catalog \<Rightarrow> NewsFetcher \<Rightarrow> feed_source \<Rightarrow> (nat \<Rightarrow> int)
    \<Rightarrow> fetch_acc \<Rightarrow> string \<Rightarrow> fetch_acc" where
  "nf_feed_step cat self net clock acc feed_id =
     (case ALL_FEEDS cat feed_id of
        None \<Rightarrow> acc
      | Some url \<Rightarrow>
          (let acc1 = acc\<lparr>requested := requested acc @ [url]\<rparr>
           in case net url of
                Inl err \<Rightarrow> acc1
              | Inr entries \<Rightarrow>
                  foldl (nf_entry_step cat self clock feed_id url) acc1 (take 20 entries)))"

definition nf_merge :: "catalog \<Rightarrow> NewsFetcher \<Rightarrow> feed_source \<Rightarrow> (nat \<Rightarrow> int) \<Rightarrow> string list
    \<Rightarrow> fetch_acc" where
  "nf_merge cat self net clock feeds =
     foldl (nf_feed_step cat self net clock)
       \<lparr> all_items = [], cur_seen_guids = {}, cur_seen_links = {},
         parsed_count = 0, requested = [] \<rparr>
       feeds"

text \<open>
  \<^verbatim>\<open>fetch_news(selected_feeds)\<close>: the returned list, the object afterwards and the URLs
  requested. \<open>now\<close> is the reading of the clock after the loop.
\<close>

definition nf_fetch_news :: "catalog \<Rightarrow> feed_source \<Rightarrow> (nat \<Rightarrow> int) \<Rightarrow> int
    \<Rightarrow> string list option \<Rightarrow> NewsFetcher \<Rightarrow> item list \<times> NewsFetcher \<times> string list" where
  "nf_fetch_news cat net clock now feeds_arg self =
     (let feeds = (case feeds_arg of None \<Rightarrow> selected_feeds self | Some fs \<Rightarrow> fs)
      in if feeds = [] then ([], self, [])
         else (let acc = nf_merge cat self net clock feeds;
                   sorted_items = py_sorted_reverse (\<lambda>x. get_or (published_parsed x) now)
                                    (all_items acc);
                   self' = self\<lparr>seen_guids := cur_seen_guids acc,
                                seen_links := cur_seen_links acc,
                                news := py_slice_to sorted_items (max_items self),
                                last_fetch_time := Some now\<rparr>
               in (news self', self', requested acc)))"

definition get_new_news_count :: "NewsFetcher \<Rightarrow> nat" where
  "get_new_news_count self =
     foldl (\<lambda>count it. if link it @ title it \<notin> seen_news_ids self then count + 1 else count)
       0 (news self)"

definition clear_viewed_cache :: "NewsFetcher \<Rightarrow> NewsFetcher" where
  "clear_viewed_cache self = self\<lparr>seen_news_ids := {}\<rparr>"

definition mark_as_viewed :: "NewsFetcher \<Rightarrow> item \<Rightarrow> NewsFetcher" where
  "mark_as_viewed self news_item =
     self\<lparr>seen_news_ids := insert (link news_item @ title news_item) (seen_news_ids self)\<rparr>"

text \<open>\<^verbatim>\<open>load_saved_links\<close>: a file that cannot be read leaves the index as it is.\<close>

definition load_saved_links :: "file_state \<Rightarrow> NewsFetcher \<Rightarrow> NewsFetcher" where
  "load_saved_links f self =
     (case f of
        Missing \<Rightarrow> self
      | Corrupt \<Rightarrow> self
      | Articles articles \<Rightarrow>
          self\<lparr>saved_links := set (filter (\<lambda>u. u \<noteq> '''') (map sa_sourceUrl articles))\<rparr>)"

text \<open>
  The constructor, after the database calls: the selection is what they left in the
  object.
\<close>

definition nf_init :: "int \<Rightarrow> string list \<Rightarrow> file_state \<Rightarrow> NewsFetcher" where
  "nf_init max_items_arg selection f =
     load_saved_links f
       \<lparr> max_items = max_items_arg, news = [], seen_guids = {}, seen_links = {},
         saved_links = {}, seen_news_ids = {}, last_fetch_time = None,
         selected_feeds = selection, custom_attrs = Map.empty \<rparr>"

text \<open>
  \<^verbatim>\<open>save_article(link)\<close>: the result, the object and the file afterwards. Every exception
  (a file that is not JSON, a failed write) is caught and reported.
\<close>

datatype save_result =
  SaveSuccess saved_article | SaveNotFound | SaveAlreadySaved | SaveNoText | SaveException

definition nf_save_article :: "(string \<Rightarrow> string) \<Rightarrow> string \<Rightarrow> string \<Rightarrow> bool \<Rightarrow> string
    \<Rightarrow> NewsFetcher \<Rightarrow> file_state \<Rightarrow> save_result \<times> NewsFetcher \<times> file_state" where
  "nf_save_article fetch_full_text_from_page now_iso new_uuid write_ok lnk self f =
     (case find (\<lambda>n. link n = lnk) (news self) of
        None \<Rightarrow> (SaveNotFound, self, f)
      | Some article \<Rightarrow>
          if lnk \<in> saved_links self then (SaveAlreadySaved, self, f)
          else (let full_text = fetch_full_text_from_page lnk
                in if full_text = [] then (SaveNoText, self, f)
                   else (let article_data =
                               \<lparr> sa_sourceUrl = lnk,
                                 sa_preview100 = make_preview (title article) full_text,
                                 sa_fullText = full_text,
                                 sa_savedAt = now_iso,
                                 sa_sourceName = sourceName article,
                                 sa_title = title article,
                                 sa_id = Some new_uuid \<rparr>
                         in case f of
                              Corrupt \<Rightarrow> (SaveException, self, f)
                            | _ \<Rightarrow>
                                (let all_articles = load_saved_articles f
                                 in if list_ex (\<lambda>a. sa_sourceUrl a = lnk) all_articles
                                    then (SaveAlreadySaved, self, f)
                                    else if write_ok
                                    then (SaveSuccess article_data,
                                          self\<lparr>saved_links := insert lnk (saved_links self)\<rparr>,
                                          Articles (all_articles @ [article_data]))
                                    else (SaveException, self, f)))))"

text \<open>
  \<^verbatim>\<open>get_saved_articles(page, page_size)\<close>. A file that is not JSON and a division by a zero
  page size raise inside the \<^verbatim>\<open>try\<close> block, whose handler returns the empty page.
\<close>

record saved_page =
  sp_articles :: "saved_article list"
  sp_total :: int
  sp_page :: int
  sp_total_pages :: int
  sp_page_size :: int

definition empty_page :: "int \<Rightarrow> int \<Rightarrow> saved_page" where
  "empty_page page page_size =
     \<lparr> sp_articles = [], sp_total = 0, sp_page = page, sp_total_pages = 0,
       sp_page_size = page_size \<rparr>"

definition get_saved_articles :: "file_state \<Rightarrow> int \<Rightarrow> int \<Rightarrow> saved_page" where
  "get_saved_articles f page0 page_size =
     (case f of
        Missing \<Rightarrow> empty_page page0 page_size
      | Corrupt \<Rightarrow> empty_page page0 page_size
      | Articles all_articles \<Rightarrow>
          if page_size = 0 then empty_page page0 page_size
          else (let total = int (length all_articles);
                    total_pages = (total + page_size - 1) div page_size;
                    page = max 1 (min page0 (if total_pages > 0 then total_pages else 1));
                    start_idx = (page - 1) * page_size;
                    end_idx = start_idx + page_size
                in \<lparr> sp_articles = py_slice all_articles start_idx end_idx,
                     sp_total = total, sp_page = page, sp_total_pages = total_pages,
                     sp_page_size = page_size \<rparr>))"

definition search_news :: "NewsFetcher \<Rightarrow> string \<Rightarrow> item list" where
  "search_news self query =
     (if query = [] \<or> py_strip query = [] then []
      else (let query_lower = py_lower query
            in filter (\<lambda>it. py_in query_lower (py_lower (title it))
                            \<or> py_in query_lower (py_lower (desc it))
                            \<or> py_in query_lower (py_lower (sourceName it)))
                 (news self)))"

section \<open>Example data\<close>

text \<open>
  Two sources: \<open>a\<close> supplies three entries, \<open>b\<close> supplies a copy of the second one and an
  entry without a date, and \<open>c\<close> cannot be reached.
\<close>

definition mk_entry :: "string option \<Rightarrow> string option \<Rightarrow> string option \<Rightarrow> string option
    \<Rightarrow> time_tuple option \<Rightarrow> entry" where
  "mk_entry i l t p tt =
     \<lparr> e_id = i, e_guid = None, e_link = l, e_title = t, e_summary = None,
       e_description = None, e_published = p, e_published_parsed = tt \<rparr>"

definition ex_catalog :: catalog where
  "ex_catalog =
     \<lparr> ALL_FEEDS = [''a'' \<mapsto> ''http://a/rss'', ''b'' \<mapsto> ''http://b/rss'', ''c'' \<mapsto> ''http://c/rss''],
       SOURCE_DISPLAY_NAMES = [''a'' \<mapsto> ''Agency A'', ''b'' \<mapsto> ''Reuters''] \<rparr>"

definition ex_net :: feed_source where
  "ex_net url =
     (if url = ''http://a/rss''
      then Inr [mk_entry (Some ''g1'') (Some ''link1'') (Some ''One'') (Some ''2024-01-03'')
                  (Some (TimeTuple 3)),
                mk_entry (Some ''g2'') (Some ''link2'') (Some ''Two'') (Some ''2024-01-02'')
                  (Some (TimeTuple 2)),
                mk_entry (Some ''g3'') (Some ''link3'') (Some ''Three'') (Some ''2024-01-01'')
                  (Some (TimeTuple 1))]
      else if url = ''http://b/rss''
      then Inr [mk_entry (Some ''other'') (Some ''link2'') (Some ''Two again'') (Some ''2024-01-02'')
                  (Some (TimeTuple 2)),
                mk_entry (Some ''g4'') (Some ''link4'') (Some ''Four'') None None]
      else Inl FetchFailed)"

definition ex_down :: feed_source where
  "ex_down url = Inl FetchFailed"

definition ex_uuid4 :: "nat \<Rightarrow> string" where
  "ex_uuid4 k = replicate (Suc k) CHR ''u''"

definition ex_clock :: "nat \<Rightarrow> int" where
  "ex_clock k = 100 + int k"

definition ex_item :: "string \<Rightarrow> string \<Rightarrow> string \<Rightarrow> item" where
  "ex_item l t src =
     \<lparr> title = t, desc = ''text'', link = l, date = ''2024-01-01'', published_parsed = Some 1,
       sourceUrl = ''http://a/rss'', sourceId = ''a'', sourceName = src, guid = l \<rparr>"

definition ex_state :: app_state where
  "ex_state =
     \<lparr> app_news = [ex_item ''link1'' ''One'' ''Agency A'', ex_item ''link2'' ''Two'' ''Reuters''],
       app_seen_news = {}, app_saved_links = {}, app_last_fetch_time = None \<rparr>"

definition ex_fetcher :: NewsFetcher where
  "ex_fetcher =
     (nf_init 500 [''a'', ''b''] Missing)
       \<lparr>news := [ex_item ''link1'' ''One'' ''Agency A'', ex_item ''link2'' ''Two'' ''Reuters'']\<rparr>"

definition ex_page_text :: "string \<Rightarrow> string" where
  "ex_page_text url = (if url = ''link1'' then ''full text of one'' else '''')"

definition ex_down_text :: "string \<Rightarrow> string" where
  "ex_down_text url = ''''"

definition ex_blank_file :: file_state where
  "ex_blank_file =
     Articles [\<lparr> sa_sourceUrl = '''', sa_preview100 = ''Title. text'', sa_fullText = ''text'',
                 sa_savedAt = ''2024-01-01'', sa_sourceName = ''Agency A'', sa_title = ''Title'',
                 sa_id = None \<rparr>]"

section \<open>Deduplication and merge\<close>

lemma mset_py_sorted_reverse: "mset (py_sorted_reverse k xs) = mset xs"
  by (simp add: py_sorted_reverse_def)

lemma distinct_map_py_sorted_reverse:
  "distinct (map f (py_sorted_reverse k xs)) = distinct (map f xs)"
proof -
  have "mset (map f (py_sorted_reverse k xs)) = mset (map f xs)"
    by (simp add: mset_py_sorted_reverse)
  then show ?thesis by (rule mset_eq_imp_distinct_iff)
qed

lemma py_slice_to_take: "py_slice_to xs n = take (py_index_clamp (length xs) n) xs"
  by (simp add: py_slice_to_def py_slice_def py_index_clamp_def Let_def)

lemma distinct_map_py_slice_to:
  "distinct (map f xs) \<Longrightarrow> distinct (map f (py_slice_to xs n))"
  by (simp add: py_slice_to_take take_map [symmetric])

lemma length_py_slice_to: "0 \<le> n \<Longrightarrow> int (length (py_slice_to xs n)) \<le> n"
  by (simp add: py_slice_to_take py_index_clamp_def)

lemma app_entry_step_inv:
  assumes "acc_seen_guids acc = guid ` set (acc_news_items acc)"
    and "acc_seen_links acc = link ` set (acc_news_items acc)"
    and "distinct (map guid (acc_news_items acc))"
    and "distinct (map link (acc_news_items acc))"
  shows "acc_seen_guids (app_entry_step cat uuid4 fid url acc e)
           = guid ` set (acc_news_items (app_entry_step cat uuid4 fid url acc e))
       \<and> acc_seen_links (app_entry_step cat uuid4 fid url acc e)
           = link ` set (acc_news_items (app_entry_step cat uuid4 fid url acc e))
       \<and> distinct (map guid (acc_news_items (app_entry_step cat uuid4 fid url acc e)))
       \<and> distinct (map link (acc_news_items (app_entry_step cat uuid4 fid url acc e)))"
  using assms by (auto simp: app_entry_step_def Let_def app_make_item_def)

lemma app_entries_inv:
  "acc_seen_guids acc = guid ` set (acc_news_items acc)
    \<and> acc_seen_links acc = link ` set (acc_news_items acc)
    \<and> distinct (map guid (acc_news_items acc))
    \<and> distinct (map link (acc_news_items acc))
   \<Longrightarrow> acc_seen_guids (foldl (app_entry_step cat uuid4 fid url) acc es)
           = guid ` set (acc_news_items (foldl (app_entry_step cat uuid4 fid url) acc es))
       \<and> acc_seen_links (foldl (app_entry_step cat uuid4 fid url) acc es)
           = link ` set (acc_news_items (foldl (app_entry_step cat uuid4 fid url) acc es))
       \<and> distinct (map guid (acc_news_items (foldl (app_entry_step cat uuid4 fid url) acc es)))
       \<and> distinct (map link (acc_news_items (foldl (app_entry_step cat uuid4 fid url) acc es)))"
proof (induction es arbitrary: acc)
  case Nil
  then show ?case by simp
next
  case (Cons e es)
  have "acc_seen_guids (app_entry_step cat uuid4 fid url acc e)
           = guid ` set (acc_news_items (app_entry_step cat uuid4 fid url acc e))
       \<and> acc_seen_links (app_entry_step cat uuid4 fid url acc e)
           = link ` set (acc_news_items (app_entry_step cat uuid4 fid url acc e))
       \<and> distinct (map guid (acc_news_items (app_entry_step cat uuid4 fid url acc e)))
       \<and> distinct (map link (acc_news_items (app_entry_step cat uuid4 fid url acc e)))"
    using Cons.prems by (intro app_entry_step_inv) simp_all
  then show ?case using Cons.IH by simp
qed

lemma app_feed_step_inv:
  assumes "acc_seen_guids acc = guid ` set (acc_news_items acc)
    \<and> acc_seen_links acc = link ` set (acc_news_items acc)
    \<and> distinct (map guid (acc_news_items acc))
    \<and> distinct (map link (acc_news_items acc))"
  shows "acc_seen_guids (app_feed_step cat net uuid4 acc fid)
           = guid ` set (acc_news_items (app_feed_step cat net uuid4 acc fid))
       \<and> acc_seen_links (app_feed_step cat net uuid4 acc fid)
           = link ` set (acc_news_items (app_feed_step cat net uuid4 acc fid))
       \<and> distinct (map guid (acc_news_items (app_feed_step cat net uuid4 acc fid)))
       \<and> distinct (map link (acc_news_items (app_feed_step cat net uuid4 acc fid)))"
proof (cases "ALL_FEEDS cat fid")
  case None
  then show ?thesis using assms by (simp add: app_feed_step_def)
next
  case (Some url)
  show ?thesis
  proof (cases "net url")
    case (Inl err)
    then show ?thesis using assms Some by (simp add: app_feed_step_def)
  next
    case (Inr entries)
    have "app_feed_step cat net uuid4 acc fid
          = foldl (app_entry_step cat uuid4 fid url)
              (acc\<lparr>acc_requested := acc_requested acc @ [url]\<rparr>) (take 20 entries)"
      using Some Inr by (simp add: app_feed_step_def)
    then show ?thesis
      using app_entries_inv [of "acc\<lparr>acc_requested := acc_requested acc @ [url]\<rparr>"
          cat uuid4 fid url "take 20 entries"] assms
      by simp
  qed
qed

lemma app_feeds_inv:
  "acc_seen_guids acc = guid ` set (acc_news_items acc)
    \<and> acc_seen_links acc = link ` set (acc_news_items acc)
    \<and> distinct (map guid (acc_news_items acc))
    \<and> distinct (map link (acc_news_items acc))
   \<Longrightarrow> acc_seen_guids (foldl (app_feed_step cat net uuid4) acc fs)
           = guid ` set (acc_news_items (foldl (app_feed_step cat net uuid4) acc fs))
       \<and> acc_seen_links (foldl (app_feed_step cat net uuid4) acc fs)
           = link ` set (acc_news_items (foldl (app_feed_step cat net uuid4) acc fs))
       \<and> distinct (map guid (acc_news_items (foldl (app_feed_step cat net uuid4) acc fs)))
       \<and> distinct (map link (acc_news_items (foldl (app_feed_step cat net uuid4) acc fs)))"
proof (induction fs arbitrary: acc)
  case Nil
  then show ?case by simp
next
  case (Cons f fs)
  show ?case using Cons.IH [OF app_feed_step_inv [OF Cons.prems]] by simp
qed

lemma app_merge_inv:
  "acc_seen_guids (app_merge cat net uuid4 fs)
           = guid ` set (acc_news_items (app_merge cat net uuid4 fs))
       \<and> acc_seen_links (app_merge cat net uuid4 fs)
           = link ` set (acc_news_items (app_merge cat net uuid4 fs))
       \<and> distinct (map guid (acc_news_items (app_merge cat net uuid4 fs)))
       \<and> distinct (map link (acc_news_items (app_merge cat net uuid4 fs)))"
  unfolding app_merge_def
  by (rule app_feeds_inv) (simp add: app_merge_start_def)


lemma nf_entry_step_inv:
  assumes "cur_seen_guids acc = guid ` set (all_items acc)
    \<and> cur_seen_links acc = link ` set (all_items acc)
    \<and> distinct (map guid (all_items acc))
    \<and> distinct (map link (all_items acc))"
  shows "cur_seen_guids (nf_entry_step cat self clock fid url acc e)
           = guid ` set (all_items (nf_entry_step cat self clock fid url acc e))
       \<and> cur_seen_links (nf_entry_step cat self clock fid url acc e)
           = link ` set (all_items (nf_entry_step cat self clock fid url acc e))
       \<and> distinct (map guid (all_items (nf_entry_step cat self clock fid url acc e)))
       \<and> distinct (map link (all_items (nf_entry_step cat self clock fid url acc e)))"
  using assms
  by (cases "parse_entry cat self (clock (parsed_count acc)) e fid url")
     (auto simp: nf_entry_step_def Let_def is_unique_def)

lemma nf_entries_inv:
  "cur_seen_guids acc = guid ` set (all_items acc)
    \<and> cur_seen_links acc = link ` set (all_items acc)
    \<and> distinct (map guid (all_items acc))
    \<and> distinct (map link (all_items acc))
   \<Longrightarrow> cur_seen_guids (foldl (nf_entry_step cat self clock fid url) acc es)
           = guid ` set (all_items (foldl (nf_entry_step cat self clock fid url) acc es))
       \<and> cur_seen_links (foldl (nf_entry_step cat self clock fid url) acc es)
           = link ` set (all_items (foldl (nf_entry_step cat self clock fid url) acc es))
       \<and> distinct (map guid (all_items (foldl (nf_entry_step cat self clock fid url) acc es)))
       \<and> distinct (map link (all_items (foldl (nf_entry_step cat self clock fid url) acc es)))"
proof (induction es arbitrary: acc)
  case Nil
  then show ?case by simp
next
  case (Cons e es)
  show ?case using Cons.IH [OF nf_entry_step_inv [OF Cons.prems]] by simp
qed

lemma nf_feed_step_inv:
  assumes "cur_seen_guids acc = guid ` set (all_items acc)
    \<and> cur_seen_links acc = link ` set (all_items acc)
    \<and> distinct (map guid (all_items acc))
    \<and> distinct (map link (all_items acc))"
  shows "cur_seen_guids (nf_feed_step cat self net clock acc fid)
           = guid ` set (all_items (nf_feed_step cat self net clock acc fid))
       \<and> cur_seen_links (nf_feed_step cat self net clock acc fid)
           = link ` set (all_items (nf_feed_step cat self net clock acc fid))
       \<and> distinct (map guid (all_items (nf_feed_step cat self net clock acc fid)))
       \<and> distinct (map link (all_items (nf_feed_step cat self net clock acc fid)))"
proof (cases "ALL_FEEDS cat fid")
  case None
  then show ?thesis using assms by (simp add: nf_feed_step_def)
next
  case (Some url)
  show ?thesis
  proof (cases "net url")
    case (Inl err)
    then show ?thesis using assms Some by (simp add: nf_feed_step_def)
  next
    case (Inr entries)
    have "nf_feed_step cat self net clock acc fid
          = foldl (nf_entry_step cat self clock fid url)
              (acc\<lparr>requested := requested acc @ [url]\<rparr>) (take 20 entries)"
      using Some Inr by (simp add: nf_feed_step_def)
    then show ?thesis
      using nf_entries_inv [of "acc\<lparr>requested := requested acc @ [url]\<rparr>"
          cat self clock fid url "take 20 entries"] assms
      by simp
  qed
qed

lemma nf_feeds_inv:
  "cur_seen_guids acc = guid ` set (all_items acc)
    \<and> cur_seen_links acc = link ` set (all_items acc)
    \<and> distinct (map guid (all_items acc))
    \<and> distinct (map link (all_items acc))
   \<Longrightarrow> cur_seen_guids (foldl (nf_feed_step cat self net clock) acc fs)
           = guid ` set (all_items (foldl (nf_feed_step cat self net clock) acc fs))
       \<and> cur_seen_links (foldl (nf_feed_step cat self net clock) acc fs)
           = link ` set (all_items (foldl (nf_feed_step cat self net clock) acc fs))
       \<and> distinct (map guid (all_items (foldl (nf_feed_step cat self net clock) acc fs)))
       \<and> distinct (map link (all_items (foldl (nf_feed_step cat self net clock) acc fs)))"
proof (induction fs arbitrary: acc)
  case Nil
  then show ?case by simp
next
  case (Cons f fs)
  show ?case using Cons.IH [OF nf_feed_step_inv [OF Cons.prems]] by simp
qed

lemma nf_merge_inv:
  "cur_seen_guids (nf_merge cat self net clock fs)
           = guid ` set (all_items (nf_merge cat self net clock fs))
       \<and> cur_seen_links (nf_merge cat self net clock fs)
           = link ` set (all_items (nf_merge cat self net clock fs))
       \<and> distinct (map guid (all_items (nf_merge cat self net clock fs)))
       \<and> distinct (map link (all_items (nf_merge cat self net clock fs)))"
  unfolding nf_merge_def
  by (rule nf_feeds_inv) simp

lemma fetch_rss_feeds_distinct:
  "distinct (map guid (fetch_rss_feeds cat net uuid4 fs))
   \<and> distinct (map link (fetch_rss_feeds cat net uuid4 fs))"
  using app_merge_inv [of cat net uuid4 fs]
  by (simp add: fetch_rss_feeds_def distinct_map_py_slice_to distinct_map_py_sorted_reverse)

lemma fetch_rss_feeds_length: "int (length (fetch_rss_feeds cat net uuid4 fs)) \<le> 500"
  using length_py_slice_to [of MAX_NEWS_ITEMS]
  by (simp add: fetch_rss_feeds_def MAX_NEWS_ITEMS_def)

lemma nf_fetch_news_news:
  "(case feeds_arg of None \<Rightarrow> selected_feeds self | Some fs \<Rightarrow> fs) \<noteq> [] \<Longrightarrow>
   news (fst (snd (nf_fetch_news cat net clock now feeds_arg self)))
   = py_slice_to
       (py_sorted_reverse (\<lambda>x. get_or (published_parsed x) now)
          (all_items (nf_merge cat self net clock
             (case feeds_arg of None \<Rightarrow> selected_feeds self | Some fs \<Rightarrow> fs))))
       (max_items self)"
  by (simp add: nf_fetch_news_def Let_def)

text \<open>
  Claim C1. Every merge pass, of the web service and of the class, leaves a list without
  two items of equal guid and without two items of equal link. The list of the web
  service has at most \<open>MAX_NEWS_ITEMS = 500\<close> items, the list of the class at most
  \<open>max_items\<close> items for a cap that is not negative. Both seen-sets are empty when the
  pass starts, and a step of the loop appends an item only if its guid is not among the
  seen guids and its link is not among the seen links.
\<close>

theorem merge_pass_unique_and_capped:
  "distinct (map guid (fetch_rss_feeds cat net uuid4 feeds))
   \<and> distinct (map link (fetch_rss_feeds cat net uuid4 feeds))
   \<and> int (length (fetch_rss_feeds cat net uuid4 feeds)) \<le> MAX_NEWS_ITEMS
   \<and> MAX_NEWS_ITEMS = 500
   \<and> ((case feeds_arg of None \<Rightarrow> selected_feeds self | Some fs \<Rightarrow> fs) \<noteq> [] \<longrightarrow>
        distinct (map guid (news (fst (snd (nf_fetch_news cat net clock now feeds_arg self)))))
      \<and> distinct (map link (news (fst (snd (nf_fetch_news cat net clock now feeds_arg self)))))
      \<and> (0 \<le> max_items self \<longrightarrow>
           int (length (news (fst (snd (nf_fetch_news cat net clock now feeds_arg self)))))
             \<le> max_items self))
   \<and> acc_seen_guids app_merge_start = {} \<and> acc_seen_links app_merge_start = {}
   \<and> cur_seen_guids (nf_merge cat self net clock []) = {}
   \<and> cur_seen_links (nf_merge cat self net clock []) = {}
   \<and> (acc_news_items (app_entry_step cat uuid4 fid url acc e) \<noteq> acc_news_items acc \<longrightarrow>
        app_entry_guid uuid4 (acc_uuid_calls acc) e \<notin> acc_seen_guids acc
      \<and> app_entry_link e \<notin> acc_seen_links acc)
   \<and> (all_items (nf_entry_step cat self clock fid url nacc e) \<noteq> all_items nacc \<longrightarrow>
        nf_entry_guid e \<notin> cur_seen_guids nacc
      \<and> get_or (e_link e) ''#'' \<notin> cur_seen_links nacc)"
proof -
  have app_len: "int (length (fetch_rss_feeds cat net uuid4 feeds)) \<le> MAX_NEWS_ITEMS"
    using fetch_rss_feeds_length [of cat net uuid4 feeds] by (simp add: MAX_NEWS_ITEMS_def)
  have nf: "(case feeds_arg of None \<Rightarrow> selected_feeds self | Some fs \<Rightarrow> fs) \<noteq> [] \<longrightarrow>
        distinct (map guid (news (fst (snd (nf_fetch_news cat net clock now feeds_arg self)))))
      \<and> distinct (map link (news (fst (snd (nf_fetch_news cat net clock now feeds_arg self)))))
      \<and> (0 \<le> max_items self \<longrightarrow>
           int (length (news (fst (snd (nf_fetch_news cat net clock now feeds_arg self)))))
             \<le> max_items self)"
    using nf_merge_inv [of cat self net clock
        "case feeds_arg of None \<Rightarrow> selected_feeds self | Some fs \<Rightarrow> fs"]
    by (simp add: nf_fetch_news_news distinct_map_py_slice_to distinct_map_py_sorted_reverse
        length_py_slice_to)
  have app_step: "acc_news_items (app_entry_step cat uuid4 fid url acc e) \<noteq> acc_news_items acc \<longrightarrow>
        app_entry_guid uuid4 (acc_uuid_calls acc) e \<notin> acc_seen_guids acc
      \<and> app_entry_link e \<notin> acc_seen_links acc"
    by (simp add: app_entry_step_def Let_def)
  have nf_step: "all_items (nf_entry_step cat self clock fid url nacc e) \<noteq> all_items nacc \<longrightarrow>
        nf_entry_guid e \<notin> cur_seen_guids nacc
      \<and> get_or (e_link e) ''#'' \<notin> cur_seen_links nacc"
    by (cases "e_published_parsed e"; cases "the (e_published_parsed e)")
       (auto simp: nf_entry_step_def Let_def is_unique_def parse_entry_def split: option.splits time_tuple.splits)
  show ?thesis
    using fetch_rss_feeds_distinct [of cat net uuid4 feeds] app_len nf app_step nf_step
    by (simp add: MAX_NEWS_ITEMS_def app_merge_start_def nf_merge_def)
qed

theorem merge_pass_unique_and_capped_witness:
  "(case Some [''a'', ''b''] of None \<Rightarrow> selected_feeds ex_fetcher | Some fs \<Rightarrow> fs) \<noteq> []
   \<and> 0 \<le> max_items ex_fetcher
   \<and> acc_news_items
        (app_entry_step ex_catalog ex_uuid4 ''a'' ''http://a/rss'' app_merge_start
           (mk_entry (Some ''g1'') (Some ''link1'') None None None))
       \<noteq> acc_news_items app_merge_start
   \<and> all_items
        (nf_entry_step ex_catalog ex_fetcher ex_clock ''a'' ''http://a/rss''
           (nf_merge ex_catalog ex_fetcher ex_net ex_clock [])
           (mk_entry (Some ''g1'') (Some ''link1'') None None None))
       \<noteq> all_items (nf_merge ex_catalog ex_fetcher ex_net ex_clock [])
   \<and> distinct (map guid (fetch_rss_feeds ex_catalog ex_net ex_uuid4 [''a'', ''b'']))
   \<and> distinct (map link (fetch_rss_feeds ex_catalog ex_net ex_uuid4 [''a'', ''b'']))
   \<and> int (length (fetch_rss_feeds ex_catalog ex_net ex_uuid4 [''a'', ''b''])) \<le> 500
   \<and> distinct (map guid (news (fst (snd
        (nf_fetch_news ex_catalog ex_net ex_clock 200 (Some [''a'', ''b'']) ex_fetcher)))))
   \<and> distinct (map link (news (fst (snd
        (nf_fetch_news ex_catalog ex_net ex_clock 200 (Some [''a'', ''b'']) ex_fetcher)))))
   \<and> int (length (news (fst (snd
        (nf_fetch_news ex_catalog ex_net ex_clock 200 (Some [''a'', ''b'']) ex_fetcher)))))
       \<le> max_items ex_fetcher
   \<and> app_entry_guid ex_uuid4 (acc_uuid_calls app_merge_start)
        (mk_entry (Some ''g1'') (Some ''link1'') None None None)
       \<notin> acc_seen_guids app_merge_start
   \<and> nf_entry_guid (mk_entry (Some ''g1'') (Some ''link1'') None None None)
       \<notin> cur_seen_guids (nf_merge ex_catalog ex_fetcher ex_net ex_clock [])"
proof -
  have h1: "(case Some [''a'', ''b''] of None \<Rightarrow> selected_feeds ex_fetcher | Some fs \<Rightarrow> fs) \<noteq> []"
    by simp
  have h2: "0 \<le> max_items ex_fetcher"
    by (simp add: ex_fetcher_def nf_init_def load_saved_links_def)
  have h3: "acc_news_items
        (app_entry_step ex_catalog ex_uuid4 ''a'' ''http://a/rss'' app_merge_start
           (mk_entry (Some ''g1'') (Some ''link1'') None None None))
       \<noteq> acc_news_items app_merge_start"
    by (simp add: app_entry_step_def app_merge_start_def app_entry_guid_def app_entry_link_def
        mk_entry_def get_or_def Let_def)
  have h4: "all_items
        (nf_entry_step ex_catalog ex_fetcher ex_clock ''a'' ''http://a/rss''
           (nf_merge ex_catalog ex_fetcher ex_net ex_clock [])
           (mk_entry (Some ''g1'') (Some ''link1'') None None None))
       \<noteq> all_items (nf_merge ex_catalog ex_fetcher ex_net ex_clock [])"
    by (simp add: nf_entry_step_def nf_merge_def parse_entry_def is_unique_def nf_entry_guid_def
        mk_entry_def get_or_def Let_def)
  show ?thesis
    using h1 h2 h3 h4
      merge_pass_unique_and_capped [where cat = ex_catalog and net = ex_net
        and ?uuid4.0 = ex_uuid4 and feeds = "[''a'', ''b'']" and feeds_arg = "Some [''a'', ''b'']"
        and self = ex_fetcher and clock = ex_clock and now = 200 and fid = "''a''"
        and url = "''http://a/rss''" and acc = app_merge_start
        and e = "mk_entry (Some ''g1'') (Some ''link1'') None None None"
        and nacc = "nf_merge ex_catalog ex_fetcher ex_net ex_clock []"]
    by (simp add: MAX_NEWS_ITEMS_def)
qed

section \<open>Refresh and the cache\<close>

lemmas ex_defs = ex_catalog_def ex_net_def ex_uuid4_def mk_entry_def ex_clock_def ex_item_def ex_state_def ex_fetcher_def ex_down_def
lemmas app_defs = fetch_rss_feeds_def app_merge_def app_merge_start_def app_feed_step_def app_entry_step_def app_entry_guid_def app_entry_link_def app_make_item_def get_or_def Let_def py_slice_to_def py_slice_def py_index_clamp_def py_sorted_reverse_def MAX_NEWS_ITEMS_def

lemma app_feeds_all_fail:
  "\<forall>fid \<in> set fs. \<forall>url. ALL_FEEDS cat fid = Some url \<longrightarrow> (\<exists>err. net url = Inl err)
   \<Longrightarrow> acc_news_items (foldl (app_feed_step cat net uuid4) acc fs) = acc_news_items acc"
proof (induction fs arbitrary: acc)
  case Nil
  then show ?case by simp
next
  case (Cons f fs)
  have step: "acc_news_items (app_feed_step cat net uuid4 acc f) = acc_news_items acc"
    using Cons.prems by (auto simp: app_feed_step_def Let_def split: option.splits sum.splits)
  have "acc_news_items (foldl (app_feed_step cat net uuid4) (app_feed_step cat net uuid4 acc f) fs)
        = acc_news_items (app_feed_step cat net uuid4 acc f)"
    using Cons.prems by (intro Cons.IH) simp
  then show ?case using step by simp
qed

lemma nf_feeds_all_fail:
  "\<forall>fid \<in> set fs. \<forall>url. ALL_FEEDS cat fid = Some url \<longrightarrow> (\<exists>err. net url = Inl err)
   \<Longrightarrow> all_items (foldl (nf_feed_step cat self net clock) acc fs) = all_items acc"
proof (induction fs arbitrary: acc)
  case Nil
  then show ?case by simp
next
  case (Cons f fs)
  have step: "all_items (nf_feed_step cat self net clock acc f) = all_items acc"
    using Cons.prems by (auto simp: nf_feed_step_def Let_def split: option.splits sum.splits)
  have "all_items (foldl (nf_feed_step cat self net clock) (nf_feed_step cat self net clock acc f) fs)
        = all_items (nf_feed_step cat self net clock acc f)"
    using Cons.prems by (intro Cons.IH) simp
  then show ?case using step by simp
qed

lemma py_slice_to_Nil: "py_slice_to [] n = []"
  by (simp add: py_slice_to_def py_slice_def)

lemma py_sorted_reverse_Nil: "py_sorted_reverse k [] = []"
  by (simp add: py_sorted_reverse_def)

lemma fetch_rss_feeds_all_fail:
  "\<forall>fid \<in> set fs. \<forall>url. ALL_FEEDS cat fid = Some url \<longrightarrow> (\<exists>err. net url = Inl err)
   \<Longrightarrow> fetch_rss_feeds cat net uuid4 fs = []"
  using app_feeds_all_fail [of fs cat net uuid4 app_merge_start]
  by (simp add: fetch_rss_feeds_def app_merge_def app_merge_start_def py_slice_to_Nil
      py_sorted_reverse_Nil)

text \<open>
  Claim C2, as amended. A refresh in which no selected source can be contacted is not
  reported as a failure: once past the gate it answers as a successful refresh, replaces
  the cached list by the empty list and sets the time of the last refresh to now, in
  the web service and in the class alike. The web service reports a failure only when
  the selection cannot be loaded, and then the state is as before. Whenever its answer
  is not the success, the state is unchanged and nothing was requested; whenever it is
  the success, the whole list is replaced and the time of the last refresh is now.
\<close>

theorem total_failure_replaces_cache:
  assumes "\<forall>fid \<in> set feeds. \<forall>url. ALL_FEEDS cat fid = Some url \<longrightarrow> (\<exists>err. net url = Inl err)"
  shows "(gate_minutes_left now s = None \<and> load_selected_feeds db = Inr feeds \<longrightarrow>
           fst (fetch_news cat net uuid4 db now s) = FetchOk
         \<and> fst (snd (fetch_news cat net uuid4 db now s))
             = s\<lparr>app_news := [], app_last_fetch_time := Some now\<rparr>)
       \<and> (feeds \<noteq> [] \<longrightarrow>
           fst (nf_fetch_news cat net clock now (Some feeds) self) = []
         \<and> news (fst (snd (nf_fetch_news cat net clock now (Some feeds) self))) = []
         \<and> last_fetch_time (fst (snd (nf_fetch_news cat net clock now (Some feeds) self)))
             = Some now)
       \<and> (fst (fetch_news cat net uuid4 db' now s) \<noteq> FetchOk \<longrightarrow>
           fst (snd (fetch_news cat net uuid4 db' now s)) = s
         \<and> snd (snd (fetch_news cat net uuid4 db' now s)) = [])
       \<and> (fst (fetch_news cat net uuid4 db' now s) = FetchOk \<longrightarrow>
           (\<exists>sel. load_selected_feeds db' = Inr sel
              \<and> fst (snd (fetch_news cat net uuid4 db' now s))
                  = s\<lparr>app_news := fetch_rss_feeds cat net uuid4 sel,
                      app_last_fetch_time := Some now\<rparr>))
       \<and> (gate_minutes_left now s = None \<and> load_selected_feeds db' = Inl DBError \<longrightarrow>
           fetch_news cat net uuid4 db' now s = (FetchError, s, []))"
proof -
  have a: "gate_minutes_left now s = None \<and> load_selected_feeds db = Inr feeds \<longrightarrow>
           fst (fetch_news cat net uuid4 db now s) = FetchOk
         \<and> fst (snd (fetch_news cat net uuid4 db now s))
             = s\<lparr>app_news := [], app_last_fetch_time := Some now\<rparr>"
    using fetch_rss_feeds_all_fail [OF assms, of uuid4] by (simp add: fetch_news_def)
  have items: "all_items (nf_merge cat self net clock feeds) = []"
    using nf_feeds_all_fail [OF assms] by (simp add: nf_merge_def)
  have b: "feeds \<noteq> [] \<longrightarrow>
           fst (nf_fetch_news cat net clock now (Some feeds) self) = []
         \<and> news (fst (snd (nf_fetch_news cat net clock now (Some feeds) self))) = []
         \<and> last_fetch_time (fst (snd (nf_fetch_news cat net clock now (Some feeds) self)))
             = Some now"
    using items by (simp add: nf_fetch_news_def Let_def py_slice_to_Nil py_sorted_reverse_Nil)
  have c: "fst (fetch_news cat net uuid4 db' now s) \<noteq> FetchOk \<longrightarrow>
           fst (snd (fetch_news cat net uuid4 db' now s)) = s
         \<and> snd (snd (fetch_news cat net uuid4 db' now s)) = []"
    by (simp add: fetch_news_def split: option.splits sum.splits)
  have d: "fst (fetch_news cat net uuid4 db' now s) = FetchOk \<longrightarrow>
           (\<exists>sel. load_selected_feeds db' = Inr sel
              \<and> fst (snd (fetch_news cat net uuid4 db' now s))
                  = s\<lparr>app_news := fetch_rss_feeds cat net uuid4 sel,
                      app_last_fetch_time := Some now\<rparr>)"
    by (simp add: fetch_news_def split: option.splits sum.splits)
  have e: "gate_minutes_left now s = None \<and> load_selected_feeds db' = Inl DBError \<longrightarrow>
           fetch_news cat net uuid4 db' now s = (FetchError, s, [])"
    by (simp add: fetch_news_def)
  show ?thesis using a b c d e by blast
qed

theorem total_failure_replaces_cache_witness:
  "gate_minutes_left 1000 ex_state = None
   \<and> load_selected_feeds (Inr [''a'', ''c'']) = Inr [''a'', ''c'']
   \<and> [''a'', ''c''] \<noteq> ([] :: string list)
   \<and> fst (fetch_news ex_catalog ex_down ex_uuid4 (Inl DBError) 1000 ex_state) \<noteq> FetchOk
   \<and> fst (fetch_news ex_catalog ex_down ex_uuid4 (Inr [''a'', ''c'']) 1000 ex_state) = FetchOk
   \<and> fst (snd (fetch_news ex_catalog ex_down ex_uuid4 (Inr [''a'', ''c'']) 1000 ex_state))
       = ex_state\<lparr>app_news := [], app_last_fetch_time := Some 1000\<rparr>
   \<and> news (fst (snd (nf_fetch_news ex_catalog ex_down ex_clock 1000 (Some [''a'', ''c'']) ex_fetcher)))
       = []
   \<and> last_fetch_time
        (fst (snd (nf_fetch_news ex_catalog ex_down ex_clock 1000 (Some [''a'', ''c'']) ex_fetcher)))
       = Some 1000
   \<and> fetch_news ex_catalog ex_down ex_uuid4 (Inl DBError) 1000 ex_state = (FetchError, ex_state, [])"
proof -
  have fail: "\<forall>fid \<in> set [''a'', ''c'']. \<forall>url.
      ALL_FEEDS ex_catalog fid = Some url \<longrightarrow> (\<exists>err. ex_down url = Inl err)"
    by (simp add: ex_down_def)
  have gate: "gate_minutes_left 1000 ex_state = None"
    by (simp add: gate_minutes_left_def ex_state_def)
  have sel: "load_selected_feeds (Inr [''a'', ''c'']) = Inr [''a'', ''c'']"
    by (simp add: load_selected_feeds_def)
  have err: "load_selected_feeds (Inl DBError) = Inl DBError"
    by (simp add: load_selected_feeds_def)
  show ?thesis
    using gate sel err
      total_failure_replaces_cache [OF fail, where now = 1000 and s = ex_state
        and db = "Inr [''a'', ''c'']" and db' = "Inl DBError" and ?uuid4.0 = ex_uuid4
        and clock = ex_clock and self = ex_fetcher]
      total_failure_replaces_cache [OF fail, where now = 1000 and s = ex_state
        and db = "Inr [''a'', ''c'']" and db' = "Inr [''a'', ''c'']" and ?uuid4.0 = ex_uuid4
        and clock = ex_clock and self = ex_fetcher]
    by simp
qed

theorem total_failure_counterexample:
  "ALL_FEEDS ex_catalog ''a'' = Some ''http://a/rss''
   \<and> ALL_FEEDS ex_catalog ''c'' = Some ''http://c/rss''
   \<and> ex_down ''http://a/rss'' = Inl FetchFailed
   \<and> ex_down ''http://c/rss'' = Inl FetchFailed
   \<and> snd (snd (fetch_news ex_catalog ex_down ex_uuid4 (Inr [''a'', ''c'']) 1000 ex_state))
       = [''http://a/rss'', ''http://c/rss'']
   \<and> fst (fetch_news ex_catalog ex_down ex_uuid4 (Inr [''a'', ''c'']) 1000 ex_state) = FetchOk
   \<and> app_news ex_state \<noteq> []
   \<and> app_news (fst (snd (fetch_news ex_catalog ex_down ex_uuid4 (Inr [''a'', ''c'']) 1000 ex_state)))
       = []
   \<and> app_last_fetch_time ex_state = None
   \<and> app_last_fetch_time
        (fst (snd (fetch_news ex_catalog ex_down ex_uuid4 (Inr [''a'', ''c'']) 1000 ex_state)))
       = Some 1000
   \<and> news ex_fetcher \<noteq> []
   \<and> last_fetch_time ex_fetcher = None
   \<and> news (fst (snd (nf_fetch_news ex_catalog ex_down ex_clock 1000 (Some [''a'', ''c'']) ex_fetcher)))
       = []
   \<and> last_fetch_time
        (fst (snd (nf_fetch_news ex_catalog ex_down ex_clock 1000 (Some [''a'', ''c'']) ex_fetcher)))
       = Some 1000"
  by (simp add: ex_defs app_defs fetch_news_def gate_minutes_left_def load_selected_feeds_def
      fetch_rss_requests_def nf_fetch_news_def nf_merge_def nf_feed_step_def nf_init_def
      load_saved_links_def)

section \<open>The date order\<close>

lemmas nf_defs = nf_fetch_news_def nf_merge_def nf_feed_step_def nf_entry_step_def
  parse_entry_def is_unique_def nf_entry_guid_def get_source_name_def nf_init_def
  load_saved_links_def

lemma py_sorted_reverse_descending:
  assumes "i \<le> j" and "j < length (py_sorted_reverse k xs)"
  shows "k (py_sorted_reverse k xs ! j) \<le> k (py_sorted_reverse k xs ! i)"
proof -
  let ?ys = "py_sorted_reverse k xs"
  have "sorted (map k (sort_key k (rev xs)))" by (rule sorted_sort_key)
  then have "sorted (rev (map k ?ys))"
    by (simp add: py_sorted_reverse_def rev_map)
  then have "map k ?ys ! j \<le> map k ?ys ! i"
    using assms by (simp add: sorted_rev_iff_nth_mono)
  then show ?thesis using assms by simp
qed

lemma py_slice_to_nth:
  "i < length (py_slice_to xs n) \<Longrightarrow> py_slice_to xs n ! i = xs ! i \<and> i < length xs"
  by (simp add: py_slice_to_take)


lemma py_sorted_reverse_empty_key_last:
  fixes k :: "'a \<Rightarrow> string"
  assumes "i < length (py_sorted_reverse k xs)" and "j < length (py_sorted_reverse k xs)"
    and "k (py_sorted_reverse k xs ! i) = []" and "k (py_sorted_reverse k xs ! j) \<noteq> []"
  shows "j < i"
proof (rule ccontr)
  assume "\<not> j < i"
  then have "i \<le> j" by simp
  then have "k (py_sorted_reverse k xs ! j) \<le> k (py_sorted_reverse k xs ! i)"
    using assms(2) by (rule py_sorted_reverse_descending)
  then show False using assms(3,4) by simp
qed

lemma fetch_rss_feeds_empty_date_last:
  assumes "i < length (fetch_rss_feeds cat net uuid4 feeds)"
    and "j < length (fetch_rss_feeds cat net uuid4 feeds)"
    and "date (fetch_rss_feeds cat net uuid4 feeds ! i) = []"
    and "date (fetch_rss_feeds cat net uuid4 feeds ! j) \<noteq> []"
  shows "j < i"
proof -
  let ?zs = "py_sorted_reverse date (acc_news_items (app_merge cat net uuid4 feeds))"
  have ys: "fetch_rss_feeds cat net uuid4 feeds = py_slice_to ?zs MAX_NEWS_ITEMS"
    by (simp add: fetch_rss_feeds_def)
  have i: "py_slice_to ?zs MAX_NEWS_ITEMS ! i = ?zs ! i \<and> i < length ?zs"
    using assms(1) unfolding ys by (rule py_slice_to_nth)
  have j: "py_slice_to ?zs MAX_NEWS_ITEMS ! j = ?zs ! j \<and> j < length ?zs"
    using assms(2) unfolding ys by (rule py_slice_to_nth)
  show ?thesis
    using py_sorted_reverse_empty_key_last [of i date "acc_news_items (app_merge cat net uuid4 feeds)" j]
      assms(3,4) i j unfolding ys by simp
qed

lemma nf_fetch_news_descending:
  assumes "(case feeds_arg of None \<Rightarrow> selected_feeds self | Some fs \<Rightarrow> fs) \<noteq> []"
    and "i \<le> j"
    and "j < length (news (fst (snd (nf_fetch_news cat net clock now feeds_arg self))))"
  shows "get_or (published_parsed (news (fst (snd (nf_fetch_news cat net clock now feeds_arg self))) ! j)) now
       \<le> get_or (published_parsed (news (fst (snd (nf_fetch_news cat net clock now feeds_arg self))) ! i)) now"
proof -
  let ?k = "\<lambda>x. get_or (published_parsed x) now"
  let ?zs = "py_sorted_reverse ?k (all_items (nf_merge cat self net clock
             (case feeds_arg of None \<Rightarrow> selected_feeds self | Some fs \<Rightarrow> fs)))"
  have ys: "news (fst (snd (nf_fetch_news cat net clock now feeds_arg self)))
            = py_slice_to ?zs (max_items self)"
    using assms(1) by (rule nf_fetch_news_news)
  have j: "py_slice_to ?zs (max_items self) ! j = ?zs ! j \<and> j < length ?zs"
    using assms(3) unfolding ys by (rule py_slice_to_nth)
  have "i < length (py_slice_to ?zs (max_items self))"
    using assms(2,3) unfolding ys by simp
  then have i: "py_slice_to ?zs (max_items self) ! i = ?zs ! i \<and> i < length ?zs"
    by (rule py_slice_to_nth)
  have "?k (?zs ! j) \<le> ?k (?zs ! i)"
    using assms(2) j by (intro py_sorted_reverse_descending) simp_all
  then show ?thesis unfolding ys using i j by simp
qed

lemma parse_entry_absent_date:
  "e_published_parsed e = None \<Longrightarrow>
   \<exists>it. parse_entry cat self now e fid url = Some it \<and> published_parsed it = Some now"
  by (simp add: parse_entry_def)

text \<open>
  Claim C3, as amended. The date sort compares keys of one type, strings in the web
  service and integers in the class, so it cannot raise. In the web service an absent
  date is the empty string, and in the sorted list every item with an absent date comes
  after every item with a present one. In the class an entry with an absent date is
  given the reading of the clock at its parsing as its date, and the cached list is in
  descending order of these values: such an item is placed by that reading, not last.
\<close>

theorem date_sort_absent_dates:
  "(i < length (fetch_rss_feeds cat net uuid4 feeds)
      \<and> j < length (fetch_rss_feeds cat net uuid4 feeds)
      \<and> date (fetch_rss_feeds cat net uuid4 feeds ! i) = []
      \<and> date (fetch_rss_feeds cat net uuid4 feeds ! j) \<noteq> [] \<longrightarrow> j < i)
   \<and> (i < length (py_sorted_reverse date xs) \<and> j < length (py_sorted_reverse date xs)
      \<and> date (py_sorted_reverse date xs ! i) = []
      \<and> date (py_sorted_reverse date xs ! j) \<noteq> [] \<longrightarrow> j < i)
   \<and> (e_published e = None \<longrightarrow> date (app_make_item cat fid url g e) = [])
   \<and> (e_published_parsed e = None \<longrightarrow>
        (\<exists>it. parse_entry cat self now e fid url = Some it \<and> published_parsed it = Some now))
   \<and> ((case feeds_arg of None \<Rightarrow> selected_feeds self | Some fs \<Rightarrow> fs) \<noteq> [] \<and> i \<le> j
      \<and> j < length (news (fst (snd (nf_fetch_news cat net clock now' feeds_arg self)))) \<longrightarrow>
        get_or (published_parsed
                  (news (fst (snd (nf_fetch_news cat net clock now' feeds_arg self))) ! j)) now'
        \<le> get_or (published_parsed
                  (news (fst (snd (nf_fetch_news cat net clock now' feeds_arg self))) ! i)) now')"
proof -
  have a: "i < length (fetch_rss_feeds cat net uuid4 feeds)
      \<and> j < length (fetch_rss_feeds cat net uuid4 feeds)
      \<and> date (fetch_rss_feeds cat net uuid4 feeds ! i) = []
      \<and> date (fetch_rss_feeds cat net uuid4 feeds ! j) \<noteq> [] \<longrightarrow> j < i"
    using fetch_rss_feeds_empty_date_last [of i cat net uuid4 feeds j] by blast
  have b: "i < length (py_sorted_reverse date xs) \<and> j < length (py_sorted_reverse date xs)
      \<and> date (py_sorted_reverse date xs ! i) = []
      \<and> date (py_sorted_reverse date xs ! j) \<noteq> [] \<longrightarrow> j < i"
    using py_sorted_reverse_empty_key_last [of i date xs j] by blast
  have c: "e_published e = None \<longrightarrow> date (app_make_item cat fid url g e) = []"
    by (simp add: app_make_item_def get_or_def)
  have d: "e_published_parsed e = None \<longrightarrow>
        (\<exists>it. parse_entry cat self now e fid url = Some it \<and> published_parsed it = Some now)"
    using parse_entry_absent_date [of e cat self now fid url] by blast
  have e: "(case feeds_arg of None \<Rightarrow> selected_feeds self | Some fs \<Rightarrow> fs) \<noteq> [] \<and> i \<le> j
      \<and> j < length (news (fst (snd (nf_fetch_news cat net clock now' feeds_arg self)))) \<longrightarrow>
        get_or (published_parsed
                  (news (fst (snd (nf_fetch_news cat net clock now' feeds_arg self))) ! j)) now'
        \<le> get_or (published_parsed
                  (news (fst (snd (nf_fetch_news cat net clock now' feeds_arg self))) ! i)) now'"
    using nf_fetch_news_descending [where feeds_arg = feeds_arg and self = self and i = i
        and j = j and cat = cat and net = net and clock = clock and now = now'] by blast
  show ?thesis using a b c d e by blast
qed

theorem date_sort_absent_dates_witness:
  "length (fetch_rss_feeds ex_catalog ex_net ex_uuid4 [''a'', ''b'']) = 4
   \<and> date (fetch_rss_feeds ex_catalog ex_net ex_uuid4 [''a'', ''b''] ! 3) = []
   \<and> date (fetch_rss_feeds ex_catalog ex_net ex_uuid4 [''a'', ''b''] ! 0) \<noteq> []
   \<and> (0 :: nat) < 3
   \<and> e_published (mk_entry (Some ''g4'') (Some ''link4'') (Some ''Four'') None None) = None
   \<and> date (app_make_item ex_catalog ''b'' ''http://b/rss'' ''g4''
              (mk_entry (Some ''g4'') (Some ''link4'') (Some ''Four'') None None)) = []
   \<and> length (news (fst (snd (nf_fetch_news ex_catalog ex_net ex_clock 200 None ex_fetcher)))) = 4
   \<and> get_or (published_parsed
         (news (fst (snd (nf_fetch_news ex_catalog ex_net ex_clock 200 None ex_fetcher))) ! 1)) 200
       \<le> get_or (published_parsed
         (news (fst (snd (nf_fetch_news ex_catalog ex_net ex_clock 200 None ex_fetcher))) ! 0)) 200"
proof -
  have app: "length (fetch_rss_feeds ex_catalog ex_net ex_uuid4 [''a'', ''b'']) = 4
      \<and> date (fetch_rss_feeds ex_catalog ex_net ex_uuid4 [''a'', ''b''] ! 3) = []
      \<and> date (fetch_rss_feeds ex_catalog ex_net ex_uuid4 [''a'', ''b''] ! 0) \<noteq> []"
    by (simp add: ex_defs app_defs)
  have srt: "length (py_sorted_reverse date (fetch_rss_feeds ex_catalog ex_net ex_uuid4 [''a'', ''b''])) = 4
      \<and> date (py_sorted_reverse date (fetch_rss_feeds ex_catalog ex_net ex_uuid4 [''a'', ''b'']) ! 3) = []
      \<and> date (py_sorted_reverse date (fetch_rss_feeds ex_catalog ex_net ex_uuid4 [''a'', ''b'']) ! 0) \<noteq> []"
    by (simp add: ex_defs app_defs)
  have ent: "e_published (mk_entry (Some ''g4'') (Some ''link4'') (Some ''Four'') None None) = None
      \<and> e_published_parsed (mk_entry (Some ''g4'') (Some ''link4'') (Some ''Four'') None None) = None"
    by (simp add: mk_entry_def)
  have sel: "(case None of None \<Rightarrow> selected_feeds ex_fetcher | Some fs \<Rightarrow> fs) \<noteq> []"
    by (simp add: ex_fetcher_def nf_init_def load_saved_links_def)
  have len: "length (news (fst (snd (nf_fetch_news ex_catalog ex_net ex_clock 200 None ex_fetcher)))) = 4"
    by (simp add: ex_defs app_defs nf_defs)
  show ?thesis
    using app srt ent sel len
      date_sort_absent_dates [where cat = ex_catalog and net = ex_net and ?uuid4.0 = ex_uuid4
        and feeds = "[''a'', ''b'']" and i = 3 and j = 0
        and xs = "fetch_rss_feeds ex_catalog ex_net ex_uuid4 [''a'', ''b'']"
        and e = "mk_entry (Some ''g4'') (Some ''link4'') (Some ''Four'') None None"
        and fid = "''b''" and url = "''http://b/rss''" and g = "''g4''"
        and self = ex_fetcher and now = 104 and feeds_arg = None and clock = ex_clock
        and now' = 200]
      date_sort_absent_dates [where cat = ex_catalog and net = ex_net and ?uuid4.0 = ex_uuid4
        and feeds = "[''a'', ''b'']" and i = 0 and j = 1
        and xs = "fetch_rss_feeds ex_catalog ex_net ex_uuid4 [''a'', ''b'']"
        and e = "mk_entry (Some ''g4'') (Some ''link4'') (Some ''Four'') None None"
        and fid = "''b''" and url = "''http://b/rss''" and g = "''g4''"
        and self = ex_fetcher and now = 104 and feeds_arg = None and clock = ex_clock
        and now' = 200]
    by simp
qed

theorem date_sort_counterexample:
  "e_published_parsed (mk_entry (Some ''g4'') (Some ''link4'') (Some ''Four'') None None) = None
   \<and> map link (fst (nf_fetch_news ex_catalog ex_net ex_clock 200 None ex_fetcher))
       = [''link4'', ''link1'', ''link2'', ''link3'']
   \<and> map published_parsed (fst (nf_fetch_news ex_catalog ex_net ex_clock 200 None ex_fetcher))
       = [Some 104, Some 3, Some 2, Some 1]"
  by (simp add: ex_defs app_defs nf_defs)

section \<open>The refresh gate\<close>

lemma gate_minutes_left_fresh:
  "app_last_fetch_time s = Some t \<Longrightarrow> now - t < CACHE_DURATION_MINUTES * minute \<Longrightarrow>
   gate_minutes_left now s = Some (CACHE_DURATION_MINUTES - (now - t) div minute)"
  by (simp add: gate_minutes_left_def Let_def)

lemma minutes_left_is_ceiling:
  "(CACHE_DURATION_MINUTES - e div minute - 1) * minute < CACHE_DURATION_MINUTES * minute - e
   \<and> CACHE_DURATION_MINUTES * minute - e \<le> (CACHE_DURATION_MINUTES - e div minute) * minute"
proof -
  define q where "q = e div minute"
  define r where "r = e mod minute"
  have m: "(0::int) < minute" by (simp add: minute_def)
  have e: "e = q * minute + r" by (simp add: q_def r_def)
  have r: "0 \<le> r \<and> r < minute" using m by (simp add: r_def)
  have l: "(CACHE_DURATION_MINUTES - q - 1) * minute
        = CACHE_DURATION_MINUTES * minute - q * minute - minute"
    by (simp add: algebra_simps)
  have u: "(CACHE_DURATION_MINUTES - q) * minute = CACHE_DURATION_MINUTES * minute - q * minute"
    by (simp add: algebra_simps)
  have "CACHE_DURATION_MINUTES * minute - q * minute - minute
          < CACHE_DURATION_MINUTES * minute - (q * minute + r)
      \<and> CACHE_DURATION_MINUTES * minute - (q * minute + r)
          \<le> CACHE_DURATION_MINUTES * minute - q * minute"
    using r by simp
  then show ?thesis unfolding q_def [symmetric] l u using e by simp
qed

text \<open>
  Claim C4. While the time since the last refresh is less than the refresh interval of
  \<open>CACHE_DURATION_MINUTES = 5\<close> minutes, \<^verbatim>\<open>POST /fetch\<close> is rejected, the answer carries the
  number of minutes left (the remaining time rounded up to whole minutes), no source is
  requested and the state is as before. In particular, after a successful refresh at
  time \<open>t\<close> a request inside the interval leaves the cached list as that refresh left it.
  The quotient of the elapsed seconds by sixty, rounded down, is the quotient of the
  elapsed microseconds by a minute.
\<close>

theorem refresh_gate_rejects:
  assumes "app_last_fetch_time s = Some t"
    and "now - t < CACHE_DURATION_MINUTES * minute"
  shows "fetch_news cat net uuid4 db now s
           = (FetchRejected (CACHE_DURATION_MINUTES - (now - t) div minute), s, [])
       \<and> CACHE_DURATION_MINUTES = 5
       \<and> (CACHE_DURATION_MINUTES - (now - t) div minute - 1) * minute
            < CACHE_DURATION_MINUTES * minute - (now - t)
       \<and> CACHE_DURATION_MINUTES * minute - (now - t)
            \<le> (CACHE_DURATION_MINUTES - (now - t) div minute) * minute
       \<and> (fst (fetch_news cat0 net0 uuid0 db0 t s0) = FetchOk \<longrightarrow>
            fst (snd (fetch_news cat net uuid4 db now (fst (snd (fetch_news cat0 net0 uuid0 db0 t s0)))))
              = fst (snd (fetch_news cat0 net0 uuid0 db0 t s0))
          \<and> snd (snd (fetch_news cat net uuid4 db now (fst (snd (fetch_news cat0 net0 uuid0 db0 t s0)))))
              = []
          \<and> fst (fetch_news cat net uuid4 db now (fst (snd (fetch_news cat0 net0 uuid0 db0 t s0))))
              = FetchRejected (CACHE_DURATION_MINUTES - (now - t) div minute))"
proof -
  have a: "fetch_news cat net uuid4 db now s
           = (FetchRejected (CACHE_DURATION_MINUTES - (now - t) div minute), s, [])"
    using gate_minutes_left_fresh [OF assms] by (simp add: fetch_news_def)
  have b: "fst (fetch_news cat0 net0 uuid0 db0 t s0) = FetchOk \<longrightarrow>
            fetch_news cat net uuid4 db now (fst (snd (fetch_news cat0 net0 uuid0 db0 t s0)))
              = (FetchRejected (CACHE_DURATION_MINUTES - (now - t) div minute),
                 fst (snd (fetch_news cat0 net0 uuid0 db0 t s0)), [])"
  proof
    assume ok: "fst (fetch_news cat0 net0 uuid0 db0 t s0) = FetchOk"
    then have "app_last_fetch_time (fst (snd (fetch_news cat0 net0 uuid0 db0 t s0))) = Some t"
      by (auto simp: fetch_news_def split: option.splits sum.splits)
    then have "gate_minutes_left now (fst (snd (fetch_news cat0 net0 uuid0 db0 t s0)))
        = Some (CACHE_DURATION_MINUTES - (now - t) div minute)"
      using assms(2) by (rule gate_minutes_left_fresh)
    then show "fetch_news cat net uuid4 db now (fst (snd (fetch_news cat0 net0 uuid0 db0 t s0)))
              = (FetchRejected (CACHE_DURATION_MINUTES - (now - t) div minute),
                 fst (snd (fetch_news cat0 net0 uuid0 db0 t s0)), [])"
      by (simp add: fetch_news_def)
  qed
  show ?thesis
    using a b minutes_left_is_ceiling [of "now - t"]
    by (simp add: CACHE_DURATION_MINUTES_def)
qed

theorem refresh_gate_rejects_witness:
  "app_last_fetch_time (ex_state\<lparr>app_last_fetch_time := Some 1000\<rparr>) = Some 1000
   \<and> (61001000 :: int) - 1000 < CACHE_DURATION_MINUTES * minute
   \<and> fst (fetch_news ex_catalog ex_net ex_uuid4 (Inr [''a'']) 1000 ex_state) = FetchOk
   \<and> fetch_news ex_catalog ex_net ex_uuid4 (Inr [''a'']) 61001000
        (ex_state\<lparr>app_last_fetch_time := Some 1000\<rparr>)
       = (FetchRejected 4, ex_state\<lparr>app_last_fetch_time := Some 1000\<rparr>, [])
   \<and> fst (snd (fetch_news ex_catalog ex_net ex_uuid4 (Inr [''a'']) 61001000
        (fst (snd (fetch_news ex_catalog ex_net ex_uuid4 (Inr [''a'']) 1000 ex_state)))))
       = fst (snd (fetch_news ex_catalog ex_net ex_uuid4 (Inr [''a'']) 1000 ex_state))"
proof -
  have h1: "app_last_fetch_time (ex_state\<lparr>app_last_fetch_time := Some 1000\<rparr>) = Some 1000"
    by simp
  have h2: "(61001000 :: int) - 1000 < CACHE_DURATION_MINUTES * minute"
    by (simp add: CACHE_DURATION_MINUTES_def minute_def)
  have h3: "fst (fetch_news ex_catalog ex_net ex_uuid4 (Inr [''a'']) 1000 ex_state) = FetchOk"
    by (simp add: fetch_news_def gate_minutes_left_def ex_state_def load_selected_feeds_def)
  have h4: "CACHE_DURATION_MINUTES - (61001000 - 1000) div minute = 4"
    by (simp add: CACHE_DURATION_MINUTES_def minute_def)
  show ?thesis
    using h1 h2 h3 h4
      refresh_gate_rejects [OF h1 h2, where cat = ex_catalog and net = ex_net
        and ?uuid4.0 = ex_uuid4 and db = "Inr [''a'']" and ?cat0.0 = ex_catalog
        and ?net0.0 = ex_net and ?uuid0.0 = ex_uuid4 and ?db0.0 = "Inr [''a'']"
        and ?s0.0 = ex_state]
    by simp
qed

section \<open>The viewed set\<close>

lemma count_loop_filter:
  "foldl (\<lambda>count it. if P it then count + 1 else count) (n :: nat) xs
   = n + length (filter P xs)"
  by (induction xs arbitrary: n) simp_all

lemma get_new_news_count_filter:
  "get_new_news_count self
   = length (filter (\<lambda>it. link it @ title it \<notin> seen_news_ids self) (news self))"
  by (simp add: get_new_news_count_def count_loop_filter)

lemma app_new_count_filter:
  "app_new_count s
   = length (filter (\<lambda>n. link n @ title n \<notin> app_seen_news s) (app_news s))"
  by (simp add: app_new_count_def sum_list_triv)

lemma mark_all_news: "news (foldl mark_as_viewed self items) = news self"
  by (induction items arbitrary: self) (simp_all add: mark_as_viewed_def)

lemma mark_all_seen:
  "seen_news_ids (foldl mark_as_viewed self items)
   = seen_news_ids self \<union> (\<lambda>it. link it @ title it) ` set items"
  by (induction items arbitrary: self) (auto simp: mark_as_viewed_def)

lemma length_filter_mono:
  "(\<And>x. P x \<Longrightarrow> Q x) \<Longrightarrow> length (filter P xs) \<le> length (filter Q xs)"
  by (induction xs) auto

lemma new_count_after_marks:
  "get_new_news_count (foldl mark_as_viewed self items) \<le> get_new_news_count self"
  unfolding get_new_news_count_filter mark_all_news mark_all_seen
  by (rule length_filter_mono) simp

text \<open>
  Claim C8. The count of new items is the number of cached items whose fingerprint, the
  link followed by the title, is not in the viewed set, in the class and in the web
  service. Marking any sequence of items as viewed leaves the cache as it is and does
  not increase the count. After the viewed set is cleared the count is the number of
  cached items.
\<close>

theorem new_count_properties:
  "get_new_news_count self
     = length (filter (\<lambda>it. link it @ title it \<notin> seen_news_ids self) (news self))
   \<and> app_new_count s
     = length (filter (\<lambda>n. link n @ title n \<notin> app_seen_news s) (app_news s))
   \<and> news (foldl mark_as_viewed self items) = news self
   \<and> get_new_news_count (foldl mark_as_viewed self items) \<le> get_new_news_count self
   \<and> news (clear_viewed_cache self) = news self
   \<and> get_new_news_count (clear_viewed_cache self) = length (news self)
   \<and> app_news (clear_cache s) = app_news s
   \<and> app_new_count (clear_cache s) = length (app_news s)"
  using new_count_after_marks [of self items]
  by (simp add: get_new_news_count_filter app_new_count_filter mark_all_news
      clear_viewed_cache_def clear_cache_def)

theorem new_count_properties_witness:
  "get_new_news_count ex_fetcher = 2
   \<and> get_new_news_count (foldl mark_as_viewed ex_fetcher [ex_item ''link1'' ''One'' ''Agency A'']) = 1
   \<and> get_new_news_count
        (clear_viewed_cache (foldl mark_as_viewed ex_fetcher [ex_item ''link1'' ''One'' ''Agency A'']))
       = 2
   \<and> app_new_count (clear_cache ex_state) = 2"
proof -
  have ev: "length (filter (\<lambda>it. link it @ title it \<notin> seen_news_ids ex_fetcher) (news ex_fetcher)) = 2
      \<and> length (filter (\<lambda>it. link it @ title it
                 \<notin> seen_news_ids (foldl mark_as_viewed ex_fetcher [ex_item ''link1'' ''One'' ''Agency A'']))
           (news (foldl mark_as_viewed ex_fetcher [ex_item ''link1'' ''One'' ''Agency A'']))) = 1
      \<and> length (news ex_fetcher) = 2 \<and> length (app_news ex_state) = 2
      \<and> length (news (foldl mark_as_viewed ex_fetcher [ex_item ''link1'' ''One'' ''Agency A''])) = 2"
    by (simp add: ex_fetcher_def ex_item_def ex_state_def nf_init_def load_saved_links_def
        mark_as_viewed_def)
  show ?thesis
    using ev
      new_count_properties [where self = ex_fetcher and s = ex_state and items = "[]"]
      new_count_properties [where self = "foldl mark_as_viewed ex_fetcher [ex_item ''link1'' ''One'' ''Agency A'']"
        and s = ex_state and items = "[]"]
    by simp
qed

section \<open>Pagination\<close>

lemma py_slice_nonneg:
  assumes "0 \<le> s" and "0 \<le> e"
  shows "py_slice xs s e = take (nat e - nat s) (drop (nat s) xs)"
proof (cases "nat s \<le> length xs")
  case True
  have "take (min (length xs) (nat e) - nat s) (drop (nat s) xs)
        = take (nat e - nat s) (drop (nat s) xs)"
  proof (cases "nat e \<le> length xs")
    case True
    then show ?thesis by (simp add: min_def)
  next
    case False
    then have "length (drop (nat s) xs) \<le> nat e - nat s" by simp
    moreover have "length (drop (nat s) xs) \<le> min (length xs) (nat e) - nat s"
      using False by (simp add: min_def)
    ultimately show ?thesis by simp
  qed
  then show ?thesis
    using assms True by (simp add: py_slice_def py_index_clamp_def Let_def min_def)
next
  case False
  then show ?thesis
    using assms by (simp add: py_slice_def py_index_clamp_def Let_def min_def)
qed

lemma ceil_div_bounds:
  assumes "(0::int) < ps"
  shows "((n + ps - 1) div ps - 1) * ps < n \<and> n \<le> ((n + ps - 1) div ps) * ps"
proof -
  define m where "m = n + ps - 1"
  define q where "q = m div ps"
  define r where "r = m mod ps"
  have m: "m = q * ps + r" by (simp add: q_def r_def)
  have r: "0 \<le> r \<and> r < ps" using assms by (simp add: r_def)
  have n: "n = q * ps + r - ps + 1" using m by (simp add: m_def)
  have l: "(q - 1) * ps = q * ps - ps" by (simp add: algebra_simps)
  have "q * ps - ps < q * ps + r - ps + 1 \<and> q * ps + r - ps + 1 \<le> q * ps"
    using r by simp
  then show ?thesis unfolding q_def [symmetric] m_def [symmetric] l using n by simp
qed


lemma app_paginate_total_pages:
  "snd (snd (app_paginate xs page)) = max 1 ((int (length xs) + PAGE_SIZE - 1) div PAGE_SIZE)"
  by (simp add: app_paginate_def Let_def)

lemma app_paginate_page:
  "fst (snd (app_paginate xs page)) = max 1 (min page (snd (snd (app_paginate xs page))))"
  by (simp add: app_paginate_def Let_def)

lemma app_paginate_items:
  "fst (app_paginate xs page)
   = take (nat PAGE_SIZE) (drop (nat ((fst (snd (app_paginate xs page)) - 1) * PAGE_SIZE)) xs)"
proof -
  define p where "p = fst (snd (app_paginate xs page))"
  have p1: "1 \<le> p" by (simp add: p_def app_paginate_page)
  define s where "s = (p - 1) * PAGE_SIZE"
  have s0: "0 \<le> s" using p1 by (simp add: s_def PAGE_SIZE_def)
  have e0: "0 \<le> min (s + PAGE_SIZE) (int (length xs))" using s0 by (simp add: PAGE_SIZE_def)
  have "fst (app_paginate xs page) = py_slice xs s (min (s + PAGE_SIZE) (int (length xs)))"
    by (simp add: app_paginate_def Let_def s_def p_def)
  also have "\<dots> = take (nat (min (s + PAGE_SIZE) (int (length xs))) - nat s) (drop (nat s) xs)"
    using s0 e0 by (rule py_slice_nonneg)
  also have "\<dots> = take (nat PAGE_SIZE) (drop (nat s) xs)"
  proof (cases "s + PAGE_SIZE \<le> int (length xs)")
    case True
    then have "nat (min (s + PAGE_SIZE) (int (length xs))) - nat s = nat PAGE_SIZE"
      using s0 by (simp add: min_def PAGE_SIZE_def)
    then show ?thesis by simp
  next
    case False
    then have "length (drop (nat s) xs) \<le> nat (min (s + PAGE_SIZE) (int (length xs))) - nat s"
      using s0 by (simp add: min_def)
    moreover have "length (drop (nat s) xs) \<le> nat PAGE_SIZE"
      using False s0 by (simp add: PAGE_SIZE_def)
    ultimately show ?thesis by simp
  qed
  finally show ?thesis by (simp add: s_def p_def)
qed

lemma get_saved_articles_items:
  assumes "0 < ps"
  shows "sp_articles (get_saved_articles (Articles xs) page ps)
   = take (nat ps) (drop (nat ((sp_page (get_saved_articles (Articles xs) page ps) - 1) * ps)) xs)"
proof -
  define p where "p = sp_page (get_saved_articles (Articles xs) page ps)"
  have p1: "1 \<le> p" using assms by (simp add: p_def get_saved_articles_def Let_def)
  define s where "s = (p - 1) * ps"
  have s0: "0 \<le> s" using p1 assms by (simp add: s_def)
  have e0: "0 \<le> s + ps" using s0 assms by simp
  have "sp_articles (get_saved_articles (Articles xs) page ps) = py_slice xs s (s + ps)"
    using assms by (simp add: get_saved_articles_def Let_def s_def p_def)
  also have "\<dots> = take (nat (s + ps) - nat s) (drop (nat s) xs)"
    using s0 e0 by (rule py_slice_nonneg)
  also have "nat (s + ps) - nat s = nat ps" using s0 assms by simp
  finally show ?thesis by (simp add: s_def p_def)
qed

text \<open>
  Claim C7, as amended. The pages of the web service have \<open>PAGE_SIZE = 10\<close> items: the
  number of pages is the count divided by the page size and rounded up, and at least 1;
  the page number is clamped into the range from 1 to the number of pages; the page is
  the corresponding block of the list; an empty list gives one page without items.
  \<^verbatim>\<open>get_saved_articles\<close> of the class, for a positive page size, returns the count
  divided by the page size and rounded up as the number of pages, which is 0 for an
  empty collection, clamps the page number into the range from 1 to the larger of 1 and
  the number of pages, and returns the corresponding block; for a missing file it
  returns no items, 0 pages and the page number as given. Nothing divides by zero.
\<close>

theorem pagination_properties:
  "PAGE_SIZE = 10
   \<and> snd (snd (app_paginate xs page)) = max 1 ((int (length xs) + PAGE_SIZE - 1) div PAGE_SIZE)
   \<and> (snd (snd (app_paginate xs page)) - 1) * PAGE_SIZE < max 1 (int (length xs))
   \<and> int (length xs) \<le> snd (snd (app_paginate xs page)) * PAGE_SIZE
   \<and> 1 \<le> snd (snd (app_paginate xs page))
   \<and> fst (snd (app_paginate xs page)) = max 1 (min page (snd (snd (app_paginate xs page))))
   \<and> 1 \<le> fst (snd (app_paginate xs page))
   \<and> fst (snd (app_paginate xs page)) \<le> snd (snd (app_paginate xs page))
   \<and> fst (app_paginate xs page)
       = take (nat PAGE_SIZE) (drop (nat ((fst (snd (app_paginate xs page)) - 1) * PAGE_SIZE)) xs)
   \<and> app_paginate [] page = ([], 1, 1)
   \<and> (0 < ps \<longrightarrow>
        sp_total_pages (get_saved_articles (Articles ys) page ps)
          = (int (length ys) + ps - 1) div ps
      \<and> (sp_total_pages (get_saved_articles (Articles ys) page ps) - 1) * ps < int (length ys)
      \<and> int (length ys) \<le> sp_total_pages (get_saved_articles (Articles ys) page ps) * ps
      \<and> sp_page (get_saved_articles (Articles ys) page ps)
          = max 1 (min page (max 1 (sp_total_pages (get_saved_articles (Articles ys) page ps))))
      \<and> sp_articles (get_saved_articles (Articles ys) page ps)
          = take (nat ps)
              (drop (nat ((sp_page (get_saved_articles (Articles ys) page ps) - 1) * ps)) ys)
      \<and> sp_total_pages (get_saved_articles (Articles []) page ps) = 0
      \<and> sp_articles (get_saved_articles (Articles []) page ps) = [])
   \<and> get_saved_articles Missing page ps = empty_page page ps
   \<and> sp_total_pages (empty_page page ps) = 0
   \<and> sp_page (empty_page page ps) = page
   \<and> sp_articles (empty_page page ps) = []"
proof -
  have tp: "snd (snd (app_paginate xs page)) = max 1 ((int (length xs) + PAGE_SIZE - 1) div PAGE_SIZE)"
    by (rule app_paginate_total_pages)
  have c: "((int (length xs) + PAGE_SIZE - 1) div PAGE_SIZE - 1) * PAGE_SIZE < int (length xs)
      \<and> int (length xs) \<le> ((int (length xs) + PAGE_SIZE - 1) div PAGE_SIZE) * PAGE_SIZE"
    by (rule ceil_div_bounds) (simp add: PAGE_SIZE_def)
  have lo: "(snd (snd (app_paginate xs page)) - 1) * PAGE_SIZE < max 1 (int (length xs))"
  proof (cases "1 \<le> (int (length xs) + PAGE_SIZE - 1) div PAGE_SIZE")
    case True
    then show ?thesis using c unfolding tp by (simp add: max_def)
  next
    case False
    then show ?thesis unfolding tp by (simp add: max_def PAGE_SIZE_def)
  qed
  have hi: "int (length xs) \<le> snd (snd (app_paginate xs page)) * PAGE_SIZE"
  proof -
    have "((int (length xs) + PAGE_SIZE - 1) div PAGE_SIZE) * PAGE_SIZE
          \<le> max 1 ((int (length xs) + PAGE_SIZE - 1) div PAGE_SIZE) * PAGE_SIZE"
      by (simp add: PAGE_SIZE_def)
    then show ?thesis using c unfolding tp by linarith
  qed
  have pg: "fst (snd (app_paginate xs page)) = max 1 (min page (snd (snd (app_paginate xs page))))"
    by (rule app_paginate_page)
  have one: "1 \<le> snd (snd (app_paginate xs page))" unfolding tp by simp
  have rng: "1 \<le> fst (snd (app_paginate xs page))
      \<and> fst (snd (app_paginate xs page)) \<le> snd (snd (app_paginate xs page))"
    using one unfolding pg by simp
  have emp: "app_paginate [] page = ([], 1, 1)"
    by (simp add: app_paginate_def Let_def PAGE_SIZE_def py_slice_def)
  have nf: "0 < ps \<longrightarrow>
        sp_total_pages (get_saved_articles (Articles ys) page ps)
          = (int (length ys) + ps - 1) div ps
      \<and> (sp_total_pages (get_saved_articles (Articles ys) page ps) - 1) * ps < int (length ys)
      \<and> int (length ys) \<le> sp_total_pages (get_saved_articles (Articles ys) page ps) * ps
      \<and> sp_page (get_saved_articles (Articles ys) page ps)
          = max 1 (min page (max 1 (sp_total_pages (get_saved_articles (Articles ys) page ps))))
      \<and> sp_articles (get_saved_articles (Articles ys) page ps)
          = take (nat ps)
              (drop (nat ((sp_page (get_saved_articles (Articles ys) page ps) - 1) * ps)) ys)
      \<and> sp_total_pages (get_saved_articles (Articles []) page ps) = 0
      \<and> sp_articles (get_saved_articles (Articles []) page ps) = []"
  proof
    assume ps: "0 < ps"
    have t: "sp_total_pages (get_saved_articles (Articles ys) page ps)
          = (int (length ys) + ps - 1) div ps"
      using ps by (simp add: get_saved_articles_def Let_def)
    have p: "sp_page (get_saved_articles (Articles ys) page ps)
          = max 1 (min page (max 1 (sp_total_pages (get_saved_articles (Articles ys) page ps))))"
      using ps by (simp add: get_saved_articles_def Let_def max_def)
    have z: "sp_total_pages (get_saved_articles (Articles []) page ps) = 0
        \<and> sp_articles (get_saved_articles (Articles []) page ps) = []"
      using ps by (simp add: get_saved_articles_def Let_def py_slice_def)
    show "sp_total_pages (get_saved_articles (Articles ys) page ps)
          = (int (length ys) + ps - 1) div ps
      \<and> (sp_total_pages (get_saved_articles (Articles ys) page ps) - 1) * ps < int (length ys)
      \<and> int (length ys) \<le> sp_total_pages (get_saved_articles (Articles ys) page ps) * ps
      \<and> sp_page (get_saved_articles (Articles ys) page ps)
          = max 1 (min page (max 1 (sp_total_pages (get_saved_articles (Articles ys) page ps))))
      \<and> sp_articles (get_saved_articles (Articles ys) page ps)
          = take (nat ps)
              (drop (nat ((sp_page (get_saved_articles (Articles ys) page ps) - 1) * ps)) ys)
      \<and> sp_total_pages (get_saved_articles (Articles []) page ps) = 0
      \<and> sp_articles (get_saved_articles (Articles []) page ps) = []"
      using t p z ceil_div_bounds [OF ps, of "int (length ys)"]
        get_saved_articles_items [OF ps, of ys page]
      by simp
  qed
  have ms: "get_saved_articles Missing page ps = empty_page page ps
      \<and> sp_total_pages (empty_page page ps) = 0
      \<and> sp_page (empty_page page ps) = page
      \<and> sp_articles (empty_page page ps) = []"
    by (simp add: get_saved_articles_def empty_page_def)
  have ps10: "PAGE_SIZE = 10" by (simp add: PAGE_SIZE_def)
  show ?thesis
    using ps10 tp lo hi one pg rng app_paginate_items [of xs page] emp nf ms by blast
qed

theorem pagination_properties_witness:
  "(0 :: int) < 10
   \<and> app_paginate ([] :: item list) 3 = ([], 1, 1)
   \<and> snd (snd (app_paginate (app_news ex_state) 5)) = 1
   \<and> fst (snd (app_paginate (app_news ex_state) 5)) = 1
   \<and> fst (app_paginate (app_news ex_state) 5) = app_news ex_state
   \<and> sp_total_pages (get_saved_articles (Articles []) 3 10) = 0
   \<and> sp_articles (get_saved_articles (Articles []) 3 10) = []
   \<and> sp_page (get_saved_articles (Articles []) 3 10) = 1"
proof -
  have pos: "(0 :: int) < 10" by simp
  have em: "app_paginate ([] :: item list) 3 = ([], 1, 1)"
    using pagination_properties [where xs = "[] :: item list" and page = 3 and ps = 10
        and ys = "[]"]
    by blast
  have sv: "sp_total_pages (get_saved_articles (Articles []) 3 10) = 0
      \<and> sp_articles (get_saved_articles (Articles []) 3 10) = []"
    using pos pagination_properties [where xs = "[] :: item list" and page = 3 and ps = 10
        and ys = "[]"]
    by blast
  have ev: "snd (snd (app_paginate (app_news ex_state) 5)) = 1
      \<and> fst (snd (app_paginate (app_news ex_state) 5)) = 1"
    by (simp add: app_paginate_def Let_def PAGE_SIZE_def ex_state_def)
  have len: "length (app_news ex_state) = 2" by (simp add: ex_state_def)
  have "fst (app_paginate (app_news ex_state) 5)
       = take (nat PAGE_SIZE)
           (drop (nat ((fst (snd (app_paginate (app_news ex_state) 5)) - 1) * PAGE_SIZE))
              (app_news ex_state))"
    using pagination_properties [where xs = "app_news ex_state" and page = 5 and ps = 10
        and ys = "[]"]
    by blast
  then have it: "fst (app_paginate (app_news ex_state) 5) = app_news ex_state"
    using ev len by (simp add: PAGE_SIZE_def)
  have pg: "sp_page (get_saved_articles (Articles []) 3 10) = 1"
    by (simp add: get_saved_articles_def Let_def)
  show ?thesis using pos em sv ev it pg by blast
qed

theorem pagination_counterexample:
  "sp_total_pages (get_saved_articles (Articles []) 1 10) = 0
   \<and> sp_total_pages (get_saved_articles Missing 1 10) = 0
   \<and> sp_page (get_saved_articles Missing 7 10) = 7"
  by (simp add: get_saved_articles_def empty_page_def Let_def)

section \<open>The saved articles\<close>

lemma find_link_None: "lnk \<notin> link ` set xs \<Longrightarrow> find (\<lambda>n. link n = lnk) xs = None"
  by (auto simp: find_None_iff)

lemma find_link_Some:
  "lnk \<in> link ` set xs \<Longrightarrow> \<exists>article. find (\<lambda>n. link n = lnk) xs = Some article"
  by (cases "find (\<lambda>n. link n = lnk) xs") (auto simp: find_None_iff)

lemma list_ex_url: "list_ex (\<lambda>a. sa_sourceUrl a = lnk) xs = (lnk \<in> sa_sourceUrl ` set xs)"
  by (auto simp: list_ex_iff)

lemma nf_save_not_found:
  "lnk \<notin> link ` set (news self) \<Longrightarrow>
   nf_save_article ptext n u w lnk self f = (SaveNotFound, self, f)"
  by (simp add: nf_save_article_def find_link_None)

lemma nf_save_in_index:
  assumes "lnk \<in> link ` set (news self)" and "lnk \<in> saved_links self"
  shows "nf_save_article ptext n u w lnk self f = (SaveAlreadySaved, self, f)"
proof -
  obtain article where "find (\<lambda>n. link n = lnk) (news self) = Some article"
    using find_link_Some [OF assms(1)] by blast
  then show ?thesis using assms(2) by (simp add: nf_save_article_def)
qed

lemma nf_save_no_text:
  assumes "lnk \<in> link ` set (news self)" and "lnk \<notin> saved_links self" and "ptext lnk = []"
  shows "nf_save_article ptext n u w lnk self f = (SaveNoText, self, f)"
proof -
  obtain article where "find (\<lambda>n. link n = lnk) (news self) = Some article"
    using find_link_Some [OF assms(1)] by blast
  then show ?thesis using assms(2,3) by (simp add: nf_save_article_def)
qed

lemma nf_save_corrupt:
  assumes "lnk \<in> link ` set (news self)" and "lnk \<notin> saved_links self" and "ptext lnk \<noteq> []"
  shows "nf_save_article ptext n u w lnk self Corrupt = (SaveException, self, Corrupt)"
proof -
  obtain article where "find (\<lambda>n. link n = lnk) (news self) = Some article"
    using find_link_Some [OF assms(1)] by blast
  then show ?thesis using assms(2,3) by (simp add: nf_save_article_def Let_def)
qed

lemma nf_save_in_file:
  assumes "lnk \<in> link ` set (news self)" and "lnk \<notin> saved_links self" and "ptext lnk \<noteq> []"
    and "f \<noteq> Corrupt" and "lnk \<in> sa_sourceUrl ` set (load_saved_articles f)"
  shows "nf_save_article ptext n u w lnk self f = (SaveAlreadySaved, self, f)"
proof -
  obtain article where "find (\<lambda>n. link n = lnk) (news self) = Some article"
    using find_link_Some [OF assms(1)] by blast
  then show ?thesis
    using assms(2-5)
    by (cases f) (simp_all add: nf_save_article_def Let_def list_ex_url)
qed

lemma nf_save_write_fails:
  assumes "lnk \<in> link ` set (news self)" and "lnk \<notin> saved_links self" and "ptext lnk \<noteq> []"
    and "f \<noteq> Corrupt" and "lnk \<notin> sa_sourceUrl ` set (load_saved_articles f)" and "\<not> w"
  shows "nf_save_article ptext n u w lnk self f = (SaveException, self, f)"
proof -
  obtain article where "find (\<lambda>n. link n = lnk) (news self) = Some article"
    using find_link_Some [OF assms(1)] by blast
  then show ?thesis
    using assms(2-6)
    by (cases f) (simp_all add: nf_save_article_def Let_def list_ex_url)
qed

lemma nf_save_success:
  assumes "lnk \<in> link ` set (news self)" and "lnk \<notin> saved_links self" and "ptext lnk \<noteq> []"
    and "f \<noteq> Corrupt" and "lnk \<notin> sa_sourceUrl ` set (load_saved_articles f)" and "w"
  shows "\<exists>a. sa_sourceUrl a = lnk \<and> sa_fullText a = ptext lnk
           \<and> nf_save_article ptext n u w lnk self f
               = (SaveSuccess a, self\<lparr>saved_links := insert lnk (saved_links self)\<rparr>,
                  Articles (load_saved_articles f @ [a]))"
proof -
  obtain article where "find (\<lambda>n. link n = lnk) (news self) = Some article"
    using find_link_Some [OF assms(1)] by blast
  then show ?thesis
    using assms(2-6)
    by (cases f) (simp_all add: nf_save_article_def Let_def list_ex_url)
qed


lemma nf_save_article_outcomes:
  "(lnk \<notin> link ` set (news self)
      \<and> nf_save_article ptext n u w lnk self f = (SaveNotFound, self, f))
   \<or> (lnk \<in> link ` set (news self) \<and> lnk \<in> saved_links self
      \<and> nf_save_article ptext n u w lnk self f = (SaveAlreadySaved, self, f))
   \<or> (lnk \<in> link ` set (news self) \<and> lnk \<notin> saved_links self \<and> ptext lnk = []
      \<and> nf_save_article ptext n u w lnk self f = (SaveNoText, self, f))
   \<or> (lnk \<in> link ` set (news self) \<and> lnk \<notin> saved_links self \<and> ptext lnk \<noteq> []
      \<and> f = Corrupt
      \<and> nf_save_article ptext n u w lnk self f = (SaveException, self, f))
   \<or> (lnk \<in> link ` set (news self) \<and> lnk \<notin> saved_links self \<and> ptext lnk \<noteq> []
      \<and> f \<noteq> Corrupt \<and> lnk \<in> sa_sourceUrl ` set (load_saved_articles f)
      \<and> nf_save_article ptext n u w lnk self f = (SaveAlreadySaved, self, f))
   \<or> (lnk \<in> link ` set (news self) \<and> lnk \<notin> saved_links self \<and> ptext lnk \<noteq> []
      \<and> f \<noteq> Corrupt \<and> lnk \<notin> sa_sourceUrl ` set (load_saved_articles f) \<and> \<not> w
      \<and> nf_save_article ptext n u w lnk self f = (SaveException, self, f))
   \<or> (lnk \<in> link ` set (news self) \<and> lnk \<notin> saved_links self \<and> ptext lnk \<noteq> []
      \<and> f \<noteq> Corrupt \<and> lnk \<notin> sa_sourceUrl ` set (load_saved_articles f) \<and> w
      \<and> (\<exists>a. sa_sourceUrl a = lnk \<and> sa_fullText a = ptext lnk
            \<and> nf_save_article ptext n u w lnk self f
                = (SaveSuccess a, self\<lparr>saved_links := insert lnk (saved_links self)\<rparr>,
                   Articles (load_saved_articles f @ [a]))))"
proof -
  consider (nf) "lnk \<notin> link ` set (news self)"
    | (idx) "lnk \<in> link ` set (news self)" "lnk \<in> saved_links self"
    | (notext) "lnk \<in> link ` set (news self)" "lnk \<notin> saved_links self" "ptext lnk = []"
    | (corrupt) "lnk \<in> link ` set (news self)" "lnk \<notin> saved_links self" "ptext lnk \<noteq> []"
        "f = Corrupt"
    | (infile) "lnk \<in> link ` set (news self)" "lnk \<notin> saved_links self" "ptext lnk \<noteq> []"
        "f \<noteq> Corrupt" "lnk \<in> sa_sourceUrl ` set (load_saved_articles f)"
    | (nowrite) "lnk \<in> link ` set (news self)" "lnk \<notin> saved_links self" "ptext lnk \<noteq> []"
        "f \<noteq> Corrupt" "lnk \<notin> sa_sourceUrl ` set (load_saved_articles f)" "\<not> w"
    | (ok) "lnk \<in> link ` set (news self)" "lnk \<notin> saved_links self" "ptext lnk \<noteq> []"
        "f \<noteq> Corrupt" "lnk \<notin> sa_sourceUrl ` set (load_saved_articles f)" "w"
    by blast
  then show ?thesis
  proof cases
    case nf
    then show ?thesis using nf_save_not_found [of lnk self ptext n u w f] by simp
  next
    case idx
    then show ?thesis using nf_save_in_index [of lnk self ptext n u w f] by simp
  next
    case notext
    then show ?thesis using nf_save_no_text [of lnk self ptext n u w f] by simp
  next
    case corrupt
    then show ?thesis using nf_save_corrupt [of lnk self ptext n u w] by simp
  next
    case infile
    then show ?thesis using nf_save_in_file [of lnk self ptext f n u w] by simp
  next
    case nowrite
    then show ?thesis using nf_save_write_fails [of lnk self ptext f w n u] by simp
  next
    case ok
    then show ?thesis using nf_save_success [of lnk self ptext f w n u] by simp
  qed
qed

lemma app_save_not_found:
  "lnk \<notin> link ` set (app_news s) \<Longrightarrow>
   save_article_endpoint ptext n w lnk s f = (NotifyNotFound, s, f)"
  by (simp add: save_article_endpoint_def find_link_None)

lemma app_save_no_text:
  assumes "lnk \<in> link ` set (app_news s)" and "ptext lnk = []"
  shows "save_article_endpoint ptext n w lnk s f = (NotifyNoText, s, f)"
proof -
  obtain article where "find (\<lambda>n. link n = lnk) (app_news s) = Some article"
    using find_link_Some [OF assms(1)] by blast
  then show ?thesis using assms(2) by (simp add: save_article_endpoint_def)
qed

lemma app_save_duplicate:
  assumes "lnk \<in> link ` set (app_news s)" and "ptext lnk \<noteq> []"
    and "lnk \<in> sa_sourceUrl ` set (load_saved_articles f)"
  shows "save_article_endpoint ptext n w lnk s f = (RedirectHome, s, f)"
proof -
  obtain article where "find (\<lambda>n. link n = lnk) (app_news s) = Some article"
    using find_link_Some [OF assms(1)] by blast
  then show ?thesis
    using assms(2,3) by (simp add: save_article_endpoint_def save_article_def Let_def list_ex_url)
qed

lemma app_save_write_fails:
  assumes "lnk \<in> link ` set (app_news s)" and "ptext lnk \<noteq> []"
    and "lnk \<notin> sa_sourceUrl ` set (load_saved_articles f)" and "\<not> w"
  shows "save_article_endpoint ptext n w lnk s f = (NotifySaveError, s, f)"
proof -
  obtain article where "find (\<lambda>n. link n = lnk) (app_news s) = Some article"
    using find_link_Some [OF assms(1)] by blast
  then show ?thesis
    using assms(2-4) by (simp add: save_article_endpoint_def save_article_def Let_def list_ex_url)
qed

lemma app_save_success:
  assumes "lnk \<in> link ` set (app_news s)" and "ptext lnk \<noteq> []"
    and "lnk \<notin> sa_sourceUrl ` set (load_saved_articles f)" and "w"
  shows "\<exists>a. sa_sourceUrl a = lnk \<and> sa_fullText a = ptext lnk
           \<and> save_article_endpoint ptext n w lnk s f
               = (RedirectHome, s\<lparr>app_saved_links := insert lnk (app_saved_links s)\<rparr>,
                  Articles (load_saved_articles f @ [a]))"
proof -
  obtain article where "find (\<lambda>n. link n = lnk) (app_news s) = Some article"
    using find_link_Some [OF assms(1)] by blast
  then show ?thesis
    using assms(2-4) by (simp add: save_article_endpoint_def save_article_def Let_def list_ex_url)
qed

lemma app_save_outcomes:
  "(lnk \<notin> link ` set (app_news s)
      \<and> save_article_endpoint ptext n w lnk s f = (NotifyNotFound, s, f))
   \<or> (lnk \<in> link ` set (app_news s) \<and> ptext lnk = []
      \<and> save_article_endpoint ptext n w lnk s f = (NotifyNoText, s, f))
   \<or> (lnk \<in> link ` set (app_news s) \<and> ptext lnk \<noteq> []
      \<and> lnk \<in> sa_sourceUrl ` set (load_saved_articles f)
      \<and> save_article_endpoint ptext n w lnk s f = (RedirectHome, s, f))
   \<or> (lnk \<in> link ` set (app_news s) \<and> ptext lnk \<noteq> []
      \<and> lnk \<notin> sa_sourceUrl ` set (load_saved_articles f) \<and> \<not> w
      \<and> save_article_endpoint ptext n w lnk s f = (NotifySaveError, s, f))
   \<or> (lnk \<in> link ` set (app_news s) \<and> ptext lnk \<noteq> []
      \<and> lnk \<notin> sa_sourceUrl ` set (load_saved_articles f) \<and> w
      \<and> (\<exists>a. sa_sourceUrl a = lnk \<and> sa_fullText a = ptext lnk
            \<and> save_article_endpoint ptext n w lnk s f
                = (RedirectHome, s\<lparr>app_saved_links := insert lnk (app_saved_links s)\<rparr>,
                   Articles (load_saved_articles f @ [a]))))"
proof -
  consider (nf) "lnk \<notin> link ` set (app_news s)"
    | (notext) "lnk \<in> link ` set (app_news s)" "ptext lnk = []"
    | (dup) "lnk \<in> link ` set (app_news s)" "ptext lnk \<noteq> []"
        "lnk \<in> sa_sourceUrl ` set (load_saved_articles f)"
    | (nowrite) "lnk \<in> link ` set (app_news s)" "ptext lnk \<noteq> []"
        "lnk \<notin> sa_sourceUrl ` set (load_saved_articles f)" "\<not> w"
    | (ok) "lnk \<in> link ` set (app_news s)" "ptext lnk \<noteq> []"
        "lnk \<notin> sa_sourceUrl ` set (load_saved_articles f)" "w"
    by blast
  then show ?thesis
  proof cases
    case nf
    then show ?thesis using app_save_not_found [of lnk s ptext n w f] by simp
  next
    case notext
    then show ?thesis using app_save_no_text [of lnk s ptext n w f] by simp
  next
    case dup
    then show ?thesis using app_save_duplicate [of lnk s ptext f n w] by simp
  next
    case nowrite
    then show ?thesis using app_save_write_fails [of lnk s ptext f w n] by simp
  next
    case ok
    then show ?thesis using app_save_success [of lnk s ptext f w n] by simp
  qed
qed

lemma articles_append_neq: "Articles (load_saved_articles f @ [a]) \<noteq> f"
  by (cases f) (simp_all add: load_saved_articles_def)


lemma nf_archive_iff:
  assumes "f \<noteq> Corrupt" and "w"
  shows "(\<exists>a. fst (nf_save_article ptext n u w lnk self f) = SaveSuccess a)
       = (lnk \<in> link ` set (news self) \<and> lnk \<notin> saved_links self
          \<and> lnk \<notin> sa_sourceUrl ` set (load_saved_articles f) \<and> ptext lnk \<noteq> [])"
  using nf_save_article_outcomes [of lnk self ptext n u w f] assms by auto

lemma nf_archive_rejects:
  "(\<forall>a. fst (nf_save_article ptext n u w lnk self f) \<noteq> SaveSuccess a) \<Longrightarrow>
   snd (nf_save_article ptext n u w lnk self f) = (self, f)"
  using nf_save_article_outcomes [of lnk self ptext n u w f] by auto

lemma nf_archive_success:
  "fst (nf_save_article ptext n u w lnk self f) = SaveSuccess a \<Longrightarrow>
   sa_fullText a \<noteq> [] \<and> sa_sourceUrl a = lnk
   \<and> snd (snd (nf_save_article ptext n u w lnk self f)) = Articles (load_saved_articles f @ [a])
   \<and> fst (snd (nf_save_article ptext n u w lnk self f))
       = self\<lparr>saved_links := insert lnk (saved_links self)\<rparr>
   \<and> lnk \<in> link ` set (news self)"
  using nf_save_article_outcomes [of lnk self ptext n u w f] by auto

lemma nf_archive_twice:
  assumes "fst (nf_save_article ptext n u w lnk self f) = SaveSuccess a"
  shows "nf_save_article ptext2 n2 u2 w2 lnk
           (fst (snd (nf_save_article ptext n u w lnk self f)))
           (snd (snd (nf_save_article ptext n u w lnk self f)))
         = (SaveAlreadySaved, fst (snd (nf_save_article ptext n u w lnk self f)),
            snd (snd (nf_save_article ptext n u w lnk self f)))"
proof -
  have st: "fst (snd (nf_save_article ptext n u w lnk self f))
       = self\<lparr>saved_links := insert lnk (saved_links self)\<rparr>"
    and inc: "lnk \<in> link ` set (news self)"
    using nf_archive_success [OF assms] by simp_all
  show ?thesis unfolding st by (rule nf_save_in_index) (simp_all add: inc)
qed

lemma nf_archive_fulltext:
  assumes "\<forall>x \<in> set (load_saved_articles f). sa_fullText x \<noteq> []"
  shows "\<forall>x \<in> set (load_saved_articles (snd (snd (nf_save_article ptext n u w lnk self f)))).
           sa_fullText x \<noteq> []"
proof (cases "\<exists>a. fst (nf_save_article ptext n u w lnk self f) = SaveSuccess a")
  case True
  then obtain a where a: "fst (nf_save_article ptext n u w lnk self f) = SaveSuccess a" by blast
  show ?thesis
    using nf_archive_success [OF a] assms by (auto simp: load_saved_articles_def)
next
  case False
  then have "snd (nf_save_article ptext n u w lnk self f) = (self, f)"
    by (intro nf_archive_rejects) simp
  then show ?thesis using assms by simp
qed

lemma app_archive_iff:
  "(snd (snd (save_article_endpoint ptext n w lnk s f)) \<noteq> f)
   = (lnk \<in> link ` set (app_news s) \<and> ptext lnk \<noteq> []
      \<and> lnk \<notin> sa_sourceUrl ` set (load_saved_articles f) \<and> w)"
  using app_save_outcomes [of lnk s ptext n w f] articles_append_neq [of f] by auto

lemma app_archive_success:
  "snd (snd (save_article_endpoint ptext n w lnk s f)) \<noteq> f \<Longrightarrow>
   \<exists>a. sa_fullText a \<noteq> [] \<and> sa_sourceUrl a = lnk
     \<and> save_article_endpoint ptext n w lnk s f
         = (RedirectHome, s\<lparr>app_saved_links := insert lnk (app_saved_links s)\<rparr>,
            Articles (load_saved_articles f @ [a]))"
  using app_save_outcomes [of lnk s ptext n w f] by auto

lemma app_archive_twice:
  assumes "snd (snd (save_article_endpoint ptext n w lnk s f)) \<noteq> f"
  shows "save_article_endpoint ptext2 n2 w2 lnk
           (fst (snd (save_article_endpoint ptext n w lnk s f)))
           (snd (snd (save_article_endpoint ptext n w lnk s f)))
         = (if ptext2 lnk = [] then NotifyNoText else RedirectHome,
            fst (snd (save_article_endpoint ptext n w lnk s f)),
            snd (snd (save_article_endpoint ptext n w lnk s f)))"
proof -
  obtain a where a: "sa_sourceUrl a = lnk"
    and r: "save_article_endpoint ptext n w lnk s f
         = (RedirectHome, s\<lparr>app_saved_links := insert lnk (app_saved_links s)\<rparr>,
            Articles (load_saved_articles f @ [a]))"
    using app_archive_success [OF assms] by blast
  have inc: "lnk \<in> link ` set (app_news s)"
    using assms by (simp add: app_archive_iff)
  have dup: "lnk \<in> sa_sourceUrl ` set (load_saved_articles (Articles (load_saved_articles f @ [a])))"
    using a by (simp add: load_saved_articles_def)
  show ?thesis
  proof (cases "ptext2 lnk = []")
    case True
    then show ?thesis unfolding r using inc
      by (simp add: app_save_no_text)
  next
    case False
    then show ?thesis unfolding r using inc dup
      by (simp add: app_save_duplicate)
  qed
qed

lemma app_archive_fulltext:
  assumes "\<forall>x \<in> set (load_saved_articles f). sa_fullText x \<noteq> []"
  shows "\<forall>x \<in> set (load_saved_articles (snd (snd (save_article_endpoint ptext n w lnk s f)))).
           sa_fullText x \<noteq> []"
proof (cases "snd (snd (save_article_endpoint ptext n w lnk s f)) = f")
  case True
  then show ?thesis using assms by simp
next
  case False
  then show ?thesis
    using app_archive_success [of ptext n w lnk s f] assms
    by (auto simp: load_saved_articles_def)
qed

text \<open>
  Claim C5, as amended. In the class, with a file that can be read and a write that
  succeeds, \<^verbatim>\<open>save_article\<close> persists a new record exactly when the link is in the cache,
  is neither in the index of saved links nor in the file, and the page text is not
  empty; otherwise it answers with the reason (not found, already saved, no text), and
  whenever it does not succeed the object and the file are as before. Every record it
  persists has a full text that is not empty, and after a success a second call for the
  same link answers already saved and leaves the file as it is. In the web service
  \<^verbatim>\<open>POST /save\<close> persists a new record exactly when the link is in the cache, the page
  text is not empty, the link is not in the file and the write succeeds; it answers not
  found and no text in these cases, every record it persists has a full text that is not
  empty, and a second call for the same link leaves the state and the file as they are.
  The web service reads the page before it looks for a duplicate and has no answer for
  an article that is already saved: the second call answers with the redirect of a
  success, or with the missing text when the page gives none.
\<close>

theorem archive_properties:
  "(f \<noteq> Corrupt \<and> w \<longrightarrow>
      (\<exists>a. fst (nf_save_article ptext n u w lnk self f) = SaveSuccess a)
      = (lnk \<in> link ` set (news self) \<and> lnk \<notin> saved_links self
         \<and> lnk \<notin> sa_sourceUrl ` set (load_saved_articles f) \<and> ptext lnk \<noteq> []))
   \<and> (lnk \<notin> link ` set (news self) \<longrightarrow>
        nf_save_article ptext n u w lnk self f = (SaveNotFound, self, f))
   \<and> (lnk \<in> link ` set (news self) \<and> lnk \<in> saved_links self \<longrightarrow>
        nf_save_article ptext n u w lnk self f = (SaveAlreadySaved, self, f))
   \<and> (lnk \<in> link ` set (news self) \<and> lnk \<notin> saved_links self \<and> ptext lnk = [] \<longrightarrow>
        nf_save_article ptext n u w lnk self f = (SaveNoText, self, f))
   \<and> (lnk \<in> link ` set (news self) \<and> lnk \<notin> saved_links self \<and> ptext lnk \<noteq> []
        \<and> f \<noteq> Corrupt \<and> lnk \<in> sa_sourceUrl ` set (load_saved_articles f) \<longrightarrow>
        nf_save_article ptext n u w lnk self f = (SaveAlreadySaved, self, f))
   \<and> ((\<forall>a. fst (nf_save_article ptext n u w lnk self f) \<noteq> SaveSuccess a) \<longrightarrow>
        snd (nf_save_article ptext n u w lnk self f) = (self, f))
   \<and> (fst (nf_save_article ptext n u w lnk self f) = SaveSuccess a \<longrightarrow>
        sa_fullText a \<noteq> [] \<and> sa_sourceUrl a = lnk
        \<and> snd (snd (nf_save_article ptext n u w lnk self f))
            = Articles (load_saved_articles f @ [a])
        \<and> nf_save_article ptext2 n2 u2 w2 lnk
             (fst (snd (nf_save_article ptext n u w lnk self f)))
             (snd (snd (nf_save_article ptext n u w lnk self f)))
           = (SaveAlreadySaved, fst (snd (nf_save_article ptext n u w lnk self f)),
              snd (snd (nf_save_article ptext n u w lnk self f))))
   \<and> ((\<forall>x \<in> set (load_saved_articles f). sa_fullText x \<noteq> []) \<longrightarrow>
        (\<forall>x \<in> set (load_saved_articles (snd (snd (nf_save_article ptext n u w lnk self f)))).
           sa_fullText x \<noteq> []))
   \<and> (snd (snd (save_article_endpoint ptext n w lnk s f)) \<noteq> f)
       = (lnk \<in> link ` set (app_news s) \<and> ptext lnk \<noteq> []
          \<and> lnk \<notin> sa_sourceUrl ` set (load_saved_articles f) \<and> w)
   \<and> (lnk \<notin> link ` set (app_news s) \<longrightarrow>
        save_article_endpoint ptext n w lnk s f = (NotifyNotFound, s, f))
   \<and> (lnk \<in> link ` set (app_news s) \<and> ptext lnk = [] \<longrightarrow>
        save_article_endpoint ptext n w lnk s f = (NotifyNoText, s, f))
   \<and> (lnk \<in> link ` set (app_news s) \<and> ptext lnk \<noteq> []
        \<and> lnk \<in> sa_sourceUrl ` set (load_saved_articles f) \<longrightarrow>
        save_article_endpoint ptext n w lnk s f = (RedirectHome, s, f))
   \<and> (snd (snd (save_article_endpoint ptext n w lnk s f)) \<noteq> f \<longrightarrow>
        (\<exists>b. sa_fullText b \<noteq> [] \<and> sa_sourceUrl b = lnk
           \<and> save_article_endpoint ptext n w lnk s f
               = (RedirectHome, s\<lparr>app_saved_links := insert lnk (app_saved_links s)\<rparr>,
                  Articles (load_saved_articles f @ [b])))
        \<and> save_article_endpoint ptext2 n2 w2 lnk
             (fst (snd (save_article_endpoint ptext n w lnk s f)))
             (snd (snd (save_article_endpoint ptext n w lnk s f)))
           = (if ptext2 lnk = [] then NotifyNoText else RedirectHome,
              fst (snd (save_article_endpoint ptext n w lnk s f)),
              snd (snd (save_article_endpoint ptext n w lnk s f))))
   \<and> ((\<forall>x \<in> set (load_saved_articles f). sa_fullText x \<noteq> []) \<longrightarrow>
        (\<forall>x \<in> set (load_saved_articles (snd (snd (save_article_endpoint ptext n w lnk s f)))).
           sa_fullText x \<noteq> []))"
proof (intro conjI impI)
  show "(\<exists>a. fst (nf_save_article ptext n u w lnk self f) = SaveSuccess a)
      = (lnk \<in> link ` set (news self) \<and> lnk \<notin> saved_links self
         \<and> lnk \<notin> sa_sourceUrl ` set (load_saved_articles f) \<and> ptext lnk \<noteq> [])"
    if "f \<noteq> Corrupt \<and> w"
    using that by (intro nf_archive_iff) simp_all
  show "nf_save_article ptext n u w lnk self f = (SaveNotFound, self, f)"
    if "lnk \<notin> link ` set (news self)"
    using that by (rule nf_save_not_found)
  show "nf_save_article ptext n u w lnk self f = (SaveAlreadySaved, self, f)"
    if "lnk \<in> link ` set (news self) \<and> lnk \<in> saved_links self"
    using that by (intro nf_save_in_index) simp_all
  show "nf_save_article ptext n u w lnk self f = (SaveNoText, self, f)"
    if "lnk \<in> link ` set (news self) \<and> lnk \<notin> saved_links self \<and> ptext lnk = []"
    using that by (intro nf_save_no_text) simp_all
  show "nf_save_article ptext n u w lnk self f = (SaveAlreadySaved, self, f)"
    if "lnk \<in> link ` set (news self) \<and> lnk \<notin> saved_links self \<and> ptext lnk \<noteq> []
        \<and> f \<noteq> Corrupt \<and> lnk \<in> sa_sourceUrl ` set (load_saved_articles f)"
    using that by (intro nf_save_in_file) simp_all
  show "snd (nf_save_article ptext n u w lnk self f) = (self, f)"
    if "\<forall>a. fst (nf_save_article ptext n u w lnk self f) \<noteq> SaveSuccess a"
    using that by (rule nf_archive_rejects)
  show "sa_fullText a \<noteq> []" "sa_sourceUrl a = lnk"
    "snd (snd (nf_save_article ptext n u w lnk self f)) = Articles (load_saved_articles f @ [a])"
    if "fst (nf_save_article ptext n u w lnk self f) = SaveSuccess a"
    using nf_archive_success [OF that] by simp_all
  show "nf_save_article ptext2 n2 u2 w2 lnk
             (fst (snd (nf_save_article ptext n u w lnk self f)))
             (snd (snd (nf_save_article ptext n u w lnk self f)))
           = (SaveAlreadySaved, fst (snd (nf_save_article ptext n u w lnk self f)),
              snd (snd (nf_save_article ptext n u w lnk self f)))"
    if "fst (nf_save_article ptext n u w lnk self f) = SaveSuccess a"
    using that by (rule nf_archive_twice)
  show "\<forall>x \<in> set (load_saved_articles (snd (snd (nf_save_article ptext n u w lnk self f)))).
           sa_fullText x \<noteq> []"
    if "\<forall>x \<in> set (load_saved_articles f). sa_fullText x \<noteq> []"
    using that by (rule nf_archive_fulltext)
  show "(snd (snd (save_article_endpoint ptext n w lnk s f)) \<noteq> f)
       = (lnk \<in> link ` set (app_news s) \<and> ptext lnk \<noteq> []
          \<and> lnk \<notin> sa_sourceUrl ` set (load_saved_articles f) \<and> w)"
    by (rule app_archive_iff)
  show "save_article_endpoint ptext n w lnk s f = (NotifyNotFound, s, f)"
    if "lnk \<notin> link ` set (app_news s)"
    using that by (rule app_save_not_found)
  show "save_article_endpoint ptext n w lnk s f = (NotifyNoText, s, f)"
    if "lnk \<in> link ` set (app_news s) \<and> ptext lnk = []"
    using that by (intro app_save_no_text) simp_all
  show "save_article_endpoint ptext n w lnk s f = (RedirectHome, s, f)"
    if "lnk \<in> link ` set (app_news s) \<and> ptext lnk \<noteq> []
        \<and> lnk \<in> sa_sourceUrl ` set (load_saved_articles f)"
    using that by (intro app_save_duplicate) simp_all
  show "\<exists>b. sa_fullText b \<noteq> [] \<and> sa_sourceUrl b = lnk
           \<and> save_article_endpoint ptext n w lnk s f
               = (RedirectHome, s\<lparr>app_saved_links := insert lnk (app_saved_links s)\<rparr>,
                  Articles (load_saved_articles f @ [b]))"
    if "snd (snd (save_article_endpoint ptext n w lnk s f)) \<noteq> f"
    using that by (rule app_archive_success)
  show "save_article_endpoint ptext2 n2 w2 lnk
             (fst (snd (save_article_endpoint ptext n w lnk s f)))
             (snd (snd (save_article_endpoint ptext n w lnk s f)))
           = (if ptext2 lnk = [] then NotifyNoText else RedirectHome,
              fst (snd (save_article_endpoint ptext n w lnk s f)),
              snd (snd (save_article_endpoint ptext n w lnk s f)))"
    if "snd (snd (save_article_endpoint ptext n w lnk s f)) \<noteq> f"
    using that by (rule app_archive_twice)
  show "\<forall>x \<in> set (load_saved_articles (snd (snd (save_article_endpoint ptext n w lnk s f)))).
           sa_fullText x \<noteq> []"
    if "\<forall>x \<in> set (load_saved_articles f). sa_fullText x \<noteq> []"
    using that by (rule app_archive_fulltext)
qed

theorem archive_properties_witness:
  "''link1'' \<in> link ` set (news ex_fetcher)
   \<and> ''link1'' \<notin> saved_links ex_fetcher
   \<and> ''link1'' \<notin> sa_sourceUrl ` set (load_saved_articles Missing)
   \<and> ex_page_text ''link1'' \<noteq> []
   \<and> ''link9'' \<notin> link ` set (news ex_fetcher)
   \<and> ex_page_text ''link2'' = []
   \<and> ''link2'' \<in> link ` set (news ex_fetcher)
   \<and> (\<exists>a. fst (nf_save_article ex_page_text ''now'' ''id'' True ''link1'' ex_fetcher Missing)
            = SaveSuccess a
          \<and> sa_fullText a \<noteq> []
          \<and> snd (snd (nf_save_article ex_page_text ''now'' ''id'' True ''link1'' ex_fetcher Missing))
              = Articles [a]
          \<and> nf_save_article ex_page_text ''later'' ''id2'' True ''link1''
                 (fst (snd (nf_save_article ex_page_text ''now'' ''id'' True ''link1'' ex_fetcher
                              Missing)))
                 (snd (snd (nf_save_article ex_page_text ''now'' ''id'' True ''link1'' ex_fetcher
                              Missing)))
              = (SaveAlreadySaved,
                 fst (snd (nf_save_article ex_page_text ''now'' ''id'' True ''link1'' ex_fetcher
                              Missing)),
                 snd (snd (nf_save_article ex_page_text ''now'' ''id'' True ''link1'' ex_fetcher
                              Missing))))
   \<and> nf_save_article ex_page_text ''now'' ''id'' True ''link9'' ex_fetcher Missing
       = (SaveNotFound, ex_fetcher, Missing)
   \<and> nf_save_article ex_page_text ''now'' ''id'' True ''link2'' ex_fetcher Missing
       = (SaveNoText, ex_fetcher, Missing)
   \<and> snd (snd (save_article_endpoint ex_page_text ''now'' True ''link1'' ex_state Missing))
       \<noteq> Missing
   \<and> save_article_endpoint ex_page_text ''now'' True ''link9'' ex_state Missing
       = (NotifyNotFound, ex_state, Missing)
   \<and> save_article_endpoint ex_page_text ''now'' True ''link2'' ex_state Missing
       = (NotifyNoText, ex_state, Missing)"
proof -
  have nfs: "news ex_fetcher = app_news ex_state" "saved_links ex_fetcher = {}"
    by (simp_all add: ex_fetcher_def ex_state_def nf_init_def load_saved_links_def)
  have links: "link ` set (app_news ex_state) = {''link1'', ''link2''}"
    by (simp add: ex_state_def ex_item_def)
  have in1: "''link1'' \<in> link ` set (news ex_fetcher)"
    and in2: "''link2'' \<in> link ` set (news ex_fetcher)"
    and out9: "''link9'' \<notin> link ` set (news ex_fetcher)"
    and ain1: "''link1'' \<in> link ` set (app_news ex_state)"
    and ain2: "''link2'' \<in> link ` set (app_news ex_state)"
    and aout9: "''link9'' \<notin> link ` set (app_news ex_state)"
    unfolding nfs links by simp_all
  have ns1: "''link1'' \<notin> saved_links ex_fetcher" and ns2: "''link2'' \<notin> saved_links ex_fetcher"
    unfolding nfs by simp_all
  have nofile: "''link1'' \<notin> sa_sourceUrl ` set (load_saved_articles Missing)"
    and empty: "load_saved_articles Missing = []"
    by (simp_all add: load_saved_articles_def)
  have tx1: "ex_page_text ''link1'' \<noteq> []" and tx2: "ex_page_text ''link2'' = []"
    by (simp_all add: ex_page_text_def)
  note t1 = archive_properties [where f = Missing and w = True and ptext = ex_page_text
      and n = "''now''" and u = "''id''" and lnk = "''link1''" and self = ex_fetcher
      and s = ex_state and ?ptext2.0 = ex_page_text and ?n2.0 = "''later''"
      and ?u2.0 = "''id2''" and ?w2.0 = True]
  note r1 = t1 [THEN conjunct2]
  note r2 = r1 [THEN conjunct2]
  note r3 = r2 [THEN conjunct2]
  note r4 = r3 [THEN conjunct2]
  note r5 = r4 [THEN conjunct2]
  note r6 = r5 [THEN conjunct2]
  note r7 = r6 [THEN conjunct2]
  note r8 = r7 [THEN conjunct2]
  have "\<exists>a. fst (nf_save_article ex_page_text ''now'' ''id'' True ''link1'' ex_fetcher Missing)
      = SaveSuccess a"
    using t1 [THEN conjunct1] in1 ns1 nofile tx1 by simp
  then obtain a where a: "fst (nf_save_article ex_page_text ''now'' ''id'' True ''link1'' ex_fetcher
      Missing) = SaveSuccess a"
    by blast
  have succ: "sa_fullText a \<noteq> []
      \<and> snd (snd (nf_save_article ex_page_text ''now'' ''id'' True ''link1'' ex_fetcher Missing))
          = Articles [a]
      \<and> nf_save_article ex_page_text ''later'' ''id2'' True ''link1''
             (fst (snd (nf_save_article ex_page_text ''now'' ''id'' True ''link1'' ex_fetcher
                          Missing)))
             (snd (snd (nf_save_article ex_page_text ''now'' ''id'' True ''link1'' ex_fetcher
                          Missing)))
          = (SaveAlreadySaved,
             fst (snd (nf_save_article ex_page_text ''now'' ''id'' True ''link1'' ex_fetcher
                          Missing)),
             snd (snd (nf_save_article ex_page_text ''now'' ''id'' True ''link1'' ex_fetcher
                          Missing)))"
proof -
    note s7 = r6 [THEN conjunct1, THEN mp, OF a]
    have f3: "snd (snd (nf_save_article ex_page_text ''now'' ''id'' True ''link1'' ex_fetcher Missing))
          = Articles [a]"
      using s7 [THEN conjunct2, THEN conjunct2, THEN conjunct1] by (simp add: empty)
    show ?thesis
      by (intro conjI s7 [THEN conjunct1] f3 s7 [THEN conjunct2, THEN conjunct2, THEN conjunct2])
  qed
  have app1: "snd (snd (save_article_endpoint ex_page_text ''now'' True ''link1'' ex_state Missing))
       \<noteq> Missing"
    using r8 [THEN conjunct1] ain1 tx1 nofile by simp
  note t9 = archive_properties [where f = Missing and w = True and ptext = ex_page_text
      and n = "''now''" and u = "''id''" and lnk = "''link9''" and self = ex_fetcher
      and s = ex_state]
  have nf9: "nf_save_article ex_page_text ''now'' ''id'' True ''link9'' ex_fetcher Missing
       = (SaveNotFound, ex_fetcher, Missing)"
    using t9 [THEN conjunct2, THEN conjunct1] out9 by simp
  have app9: "save_article_endpoint ex_page_text ''now'' True ''link9'' ex_state Missing
       = (NotifyNotFound, ex_state, Missing)"
    using t9 [THEN conjunct2, THEN conjunct2, THEN conjunct2, THEN conjunct2, THEN conjunct2,
        THEN conjunct2, THEN conjunct2, THEN conjunct2, THEN conjunct2, THEN conjunct1] aout9
    by simp
  note t2 = archive_properties [where f = Missing and w = True and ptext = ex_page_text
      and n = "''now''" and u = "''id''" and lnk = "''link2''" and self = ex_fetcher
      and s = ex_state]
  have nf2: "nf_save_article ex_page_text ''now'' ''id'' True ''link2'' ex_fetcher Missing
       = (SaveNoText, ex_fetcher, Missing)"
    using t2 [THEN conjunct2, THEN conjunct2, THEN conjunct2, THEN conjunct1] in2 ns2 tx2
    by simp
  have app2: "save_article_endpoint ex_page_text ''now'' True ''link2'' ex_state Missing
       = (NotifyNoText, ex_state, Missing)"
    using t2 [THEN conjunct2, THEN conjunct2, THEN conjunct2, THEN conjunct2, THEN conjunct2,
        THEN conjunct2, THEN conjunct2, THEN conjunct2, THEN conjunct2, THEN conjunct2,
        THEN conjunct1] ain2 tx2
    by simp
  have ex: "\<exists>a. fst (nf_save_article ex_page_text ''now'' ''id'' True ''link1'' ex_fetcher Missing)
            = SaveSuccess a
          \<and> sa_fullText a \<noteq> []
          \<and> snd (snd (nf_save_article ex_page_text ''now'' ''id'' True ''link1'' ex_fetcher Missing))
              = Articles [a]
          \<and> nf_save_article ex_page_text ''later'' ''id2'' True ''link1''
                 (fst (snd (nf_save_article ex_page_text ''now'' ''id'' True ''link1'' ex_fetcher
                              Missing)))
                 (snd (snd (nf_save_article ex_page_text ''now'' ''id'' True ''link1'' ex_fetcher
                              Missing)))
              = (SaveAlreadySaved,
                 fst (snd (nf_save_article ex_page_text ''now'' ''id'' True ''link1'' ex_fetcher
                              Missing)),
                 snd (snd (nf_save_article ex_page_text ''now'' ''id'' True ''link1'' ex_fetcher
                              Missing)))"
    by (intro exI [of _ a] conjI a succ [THEN conjunct1] succ [THEN conjunct2, THEN conjunct1]
        succ [THEN conjunct2, THEN conjunct2])
  show ?thesis
    by (intro conjI in1 ns1 nofile tx1 out9 tx2 in2 ex nf9 nf2 app1 app9 app2)
qed

theorem archive_counterexample:
  "''link1'' \<in> link ` set (app_news ex_state)
   \<and> fst (save_article_endpoint ex_page_text ''now'' True ''link1'' ex_state Missing)
       = RedirectHome
   \<and> snd (snd (save_article_endpoint ex_page_text ''now'' True ''link1'' ex_state Missing))
       \<noteq> Missing
   \<and> save_article_endpoint ex_page_text ''later'' True ''link1''
        (fst (snd (save_article_endpoint ex_page_text ''now'' True ''link1'' ex_state Missing)))
        (snd (snd (save_article_endpoint ex_page_text ''now'' True ''link1'' ex_state Missing)))
      = (RedirectHome,
         fst (snd (save_article_endpoint ex_page_text ''now'' True ''link1'' ex_state Missing)),
         snd (snd (save_article_endpoint ex_page_text ''now'' True ''link1'' ex_state Missing)))
   \<and> fst (save_article_endpoint ex_down_text ''later'' True ''link1''
            (fst (snd (save_article_endpoint ex_page_text ''now'' True ''link1'' ex_state Missing)))
            (snd (snd (save_article_endpoint ex_page_text ''now'' True ''link1'' ex_state Missing))))
       = NotifyNoText"
proof -
  have inc: "''link1'' \<in> link ` set (app_news ex_state)"
    by (simp add: ex_state_def ex_item_def)
  have tx: "ex_page_text ''link1'' \<noteq> []" by (simp add: ex_page_text_def)
  have nd: "''link1'' \<notin> sa_sourceUrl ` set (load_saved_articles Missing)"
    by (simp add: load_saved_articles_def)
  have pers: "snd (snd (save_article_endpoint ex_page_text ''now'' True ''link1'' ex_state Missing))
       \<noteq> Missing"
    using inc tx nd by (simp add: app_archive_iff)
  have r1: "fst (save_article_endpoint ex_page_text ''now'' True ''link1'' ex_state Missing)
       = RedirectHome"
    using app_archive_success [OF pers] by auto
  have r2: "save_article_endpoint ex_page_text ''later'' True ''link1''
        (fst (snd (save_article_endpoint ex_page_text ''now'' True ''link1'' ex_state Missing)))
        (snd (snd (save_article_endpoint ex_page_text ''now'' True ''link1'' ex_state Missing)))
      = (RedirectHome,
         fst (snd (save_article_endpoint ex_page_text ''now'' True ''link1'' ex_state Missing)),
         snd (snd (save_article_endpoint ex_page_text ''now'' True ''link1'' ex_state Missing)))"
    using app_archive_twice [OF pers, of ex_page_text "''later''" True] tx by simp
  have r3: "fst (save_article_endpoint ex_down_text ''later'' True ''link1''
            (fst (snd (save_article_endpoint ex_page_text ''now'' True ''link1'' ex_state Missing)))
            (snd (snd (save_article_endpoint ex_page_text ''now'' True ''link1'' ex_state Missing))))
       = NotifyNoText"
    using app_archive_twice [OF pers, of ex_down_text "''later''" True]
    by (simp add: ex_down_text_def)
  show ?thesis by (intro conjI inc r1 pers r2 r3)
qed

section \<open>The index of saved links\<close>

lemma saved_urls_append:
  "sa_sourceUrl ` set (load_saved_articles (Articles (load_saved_articles f @ [a])))
   = insert (sa_sourceUrl a) (sa_sourceUrl ` set (load_saved_articles f))"
  by (simp add: load_saved_articles_def)

lemma nf_init_saved_links:
  "saved_links (nf_init m sel f) = {u \<in> sa_sourceUrl ` set (load_saved_articles f). u \<noteq> []}"
  by (cases f) (auto simp: nf_init_def load_saved_links_def load_saved_articles_def)

lemma startup_saved_links:
  "startup_event cat net uuid4 db f now s = Inr s' \<Longrightarrow>
   app_saved_links s' = {u \<in> sa_sourceUrl ` set (load_saved_articles f). u \<noteq> []}"
  by (auto simp: startup_event_def Let_def split: sum.splits if_splits)

lemma nf_index_step:
  "((\<exists>a. fst (nf_save_article ptext n u w lnk self f) = SaveSuccess a) \<longrightarrow>
      saved_links (fst (snd (nf_save_article ptext n u w lnk self f)))
        = insert lnk (saved_links self)
    \<and> sa_sourceUrl ` set (load_saved_articles (snd (snd (nf_save_article ptext n u w lnk self f))))
        = insert lnk (sa_sourceUrl ` set (load_saved_articles f)))
   \<and> ((\<forall>a. fst (nf_save_article ptext n u w lnk self f) \<noteq> SaveSuccess a) \<longrightarrow>
      saved_links (fst (snd (nf_save_article ptext n u w lnk self f))) = saved_links self
    \<and> snd (snd (nf_save_article ptext n u w lnk self f)) = f)"
proof (intro conjI impI)
  assume "\<exists>a. fst (nf_save_article ptext n u w lnk self f) = SaveSuccess a"
  then obtain a where a: "fst (nf_save_article ptext n u w lnk self f) = SaveSuccess a" by blast
  note s = nf_archive_success [OF a]
  show "saved_links (fst (snd (nf_save_article ptext n u w lnk self f)))
        = insert lnk (saved_links self)"
    using s by simp
  show "sa_sourceUrl ` set (load_saved_articles (snd (snd (nf_save_article ptext n u w lnk self f))))
        = insert lnk (sa_sourceUrl ` set (load_saved_articles f))"
    using s saved_urls_append [of f a] by simp
next
  assume "\<forall>a. fst (nf_save_article ptext n u w lnk self f) \<noteq> SaveSuccess a"
  then have r: "snd (nf_save_article ptext n u w lnk self f) = (self, f)"
    by (rule nf_archive_rejects)
  show "saved_links (fst (snd (nf_save_article ptext n u w lnk self f))) = saved_links self"
    using r by simp
  show "snd (snd (nf_save_article ptext n u w lnk self f)) = f"
    using r by simp
qed

lemma app_index_step:
  "(snd (snd (save_article_endpoint ptext n w lnk s f)) \<noteq> f \<longrightarrow>
      app_saved_links (fst (snd (save_article_endpoint ptext n w lnk s f)))
        = insert lnk (app_saved_links s)
    \<and> sa_sourceUrl ` set (load_saved_articles (snd (snd (save_article_endpoint ptext n w lnk s f))))
        = insert lnk (sa_sourceUrl ` set (load_saved_articles f)))
   \<and> (snd (snd (save_article_endpoint ptext n w lnk s f)) = f \<longrightarrow>
      app_saved_links (fst (snd (save_article_endpoint ptext n w lnk s f))) = app_saved_links s)"
proof (intro conjI impI)
  assume p: "snd (snd (save_article_endpoint ptext n w lnk s f)) \<noteq> f"
  obtain a where a: "sa_sourceUrl a = lnk"
    and r: "save_article_endpoint ptext n w lnk s f
         = (RedirectHome, s\<lparr>app_saved_links := insert lnk (app_saved_links s)\<rparr>,
            Articles (load_saved_articles f @ [a]))"
    using app_archive_success [OF p] by blast
  show "app_saved_links (fst (snd (save_article_endpoint ptext n w lnk s f)))
        = insert lnk (app_saved_links s)"
    unfolding r by simp
  show "sa_sourceUrl ` set (load_saved_articles (snd (snd (save_article_endpoint ptext n w lnk s f))))
        = insert lnk (sa_sourceUrl ` set (load_saved_articles f))"
    unfolding r using saved_urls_append [of f a] a by simp
next
  assume q: "snd (snd (save_article_endpoint ptext n w lnk s f)) = f"
  show "app_saved_links (fst (snd (save_article_endpoint ptext n w lnk s f))) = app_saved_links s"
    using app_save_outcomes [of lnk s ptext n w f] q articles_append_neq [of f] by auto
qed

text \<open>
  Claim C10, as amended. At start-up both implementations build the index of saved links from
  the persisted collection, keeping the non-empty \<open>sourceUrl\<close> values only (an unreadable or
  missing file gives the empty index); when no record has an empty \<open>sourceUrl\<close> the index is the
  set of \<open>sourceUrl\<close> values. An archive request that persists a new record adds its link to the
  index and to the \<open>sourceUrl\<close> values of the collection; a rejected or failed request leaves the
  index unchanged (and, in \<open>t1.py\<close>, the collection too). Hence an index equal to the set of
  \<open>sourceUrl\<close> values stays equal to it across every archive request.
\<close>
theorem saved_links_index:
  "saved_links (nf_init m sel f) = {u \<in> sa_sourceUrl ` set (load_saved_articles f). u \<noteq> []}
   \<and> (startup_event cat net uuid4 db f now s0 = Inr s' \<longrightarrow>
        app_saved_links s' = {u \<in> sa_sourceUrl ` set (load_saved_articles f). u \<noteq> []})
   \<and> ([] \<notin> sa_sourceUrl ` set (load_saved_articles f) \<longrightarrow>
        saved_links (nf_init m sel f) = sa_sourceUrl ` set (load_saved_articles f))
   \<and> ((\<exists>a. fst (nf_save_article ptext n u w lnk self f) = SaveSuccess a) \<longrightarrow>
        saved_links (fst (snd (nf_save_article ptext n u w lnk self f)))
          = insert lnk (saved_links self)
      \<and> sa_sourceUrl ` set (load_saved_articles (snd (snd (nf_save_article ptext n u w lnk self f))))
          = insert lnk (sa_sourceUrl ` set (load_saved_articles f)))
   \<and> ((\<forall>a. fst (nf_save_article ptext n u w lnk self f) \<noteq> SaveSuccess a) \<longrightarrow>
        saved_links (fst (snd (nf_save_article ptext n u w lnk self f))) = saved_links self
      \<and> snd (snd (nf_save_article ptext n u w lnk self f)) = f)
   \<and> (saved_links self = sa_sourceUrl ` set (load_saved_articles f) \<longrightarrow>
        saved_links (fst (snd (nf_save_article ptext n u w lnk self f)))
          = sa_sourceUrl ` set (load_saved_articles (snd (snd (nf_save_article ptext n u w lnk self f)))))
   \<and> (snd (snd (save_article_endpoint ptext n w lnk s f)) \<noteq> f \<longrightarrow>
        app_saved_links (fst (snd (save_article_endpoint ptext n w lnk s f)))
          = insert lnk (app_saved_links s)
      \<and> sa_sourceUrl ` set (load_saved_articles (snd (snd (save_article_endpoint ptext n w lnk s f))))
          = insert lnk (sa_sourceUrl ` set (load_saved_articles f)))
   \<and> (snd (snd (save_article_endpoint ptext n w lnk s f)) = f \<longrightarrow>
        app_saved_links (fst (snd (save_article_endpoint ptext n w lnk s f))) = app_saved_links s)
   \<and> (app_saved_links s = sa_sourceUrl ` set (load_saved_articles f) \<longrightarrow>
        app_saved_links (fst (snd (save_article_endpoint ptext n w lnk s f)))
          = sa_sourceUrl ` set (load_saved_articles (snd (snd (save_article_endpoint ptext n w lnk s f)))))"
proof -
  note nf = nf_index_step [of ptext n u w lnk self f]
  note app = app_index_step [of ptext n w lnk s f]
  have a: "saved_links (nf_init m sel f)
      = {u \<in> sa_sourceUrl ` set (load_saved_articles f). u \<noteq> []}"
    by (rule nf_init_saved_links)
  have b: "startup_event cat net uuid4 db f now s0 = Inr s' \<longrightarrow>
        app_saved_links s' = {u \<in> sa_sourceUrl ` set (load_saved_articles f). u \<noteq> []}"
    using startup_saved_links [of cat net uuid4 db f now s0 s'] by blast
  have c: "[] \<notin> sa_sourceUrl ` set (load_saved_articles f) \<longrightarrow>
        saved_links (nf_init m sel f) = sa_sourceUrl ` set (load_saved_articles f)"
  proof
    assume "[] \<notin> sa_sourceUrl ` set (load_saved_articles f)"
    then have "{u \<in> sa_sourceUrl ` set (load_saved_articles f). u \<noteq> []}
        = sa_sourceUrl ` set (load_saved_articles f)"
      by blast
    then show "saved_links (nf_init m sel f) = sa_sourceUrl ` set (load_saved_articles f)"
      using a by simp
  qed
  have d: "saved_links self = sa_sourceUrl ` set (load_saved_articles f) \<longrightarrow>
        saved_links (fst (snd (nf_save_article ptext n u w lnk self f)))
          = sa_sourceUrl ` set (load_saved_articles (snd (snd (nf_save_article ptext n u w lnk self f))))"
  proof (cases "\<exists>a. fst (nf_save_article ptext n u w lnk self f) = SaveSuccess a")
    case True
    then show ?thesis using nf [THEN conjunct1] by simp
  next
    case False
    then show ?thesis using nf [THEN conjunct2] by simp
  qed
  have e: "app_saved_links s = sa_sourceUrl ` set (load_saved_articles f) \<longrightarrow>
        app_saved_links (fst (snd (save_article_endpoint ptext n w lnk s f)))
          = sa_sourceUrl ` set (load_saved_articles (snd (snd (save_article_endpoint ptext n w lnk s f))))"
  proof (cases "snd (snd (save_article_endpoint ptext n w lnk s f)) = f")
    case True
    then show ?thesis using app [THEN conjunct2] by simp
  next
    case False
    then show ?thesis using app [THEN conjunct1] by simp
  qed
  show ?thesis
    by (intro conjI a b c nf [THEN conjunct1] nf [THEN conjunct2] d app [THEN conjunct1]
        app [THEN conjunct2] e)
qed

theorem saved_links_index_witness:
  "[] \<notin> sa_sourceUrl ` set (load_saved_articles Missing)
   \<and> saved_links (nf_init 500 [''a'', ''b''] Missing) = sa_sourceUrl ` set (load_saved_articles Missing)
   \<and> (\<exists>a. fst (nf_save_article ex_page_text ''now'' ''id'' True ''link1'' ex_fetcher Missing)
          = SaveSuccess a)
   \<and> saved_links ex_fetcher = sa_sourceUrl ` set (load_saved_articles Missing)
   \<and> saved_links (fst (snd (nf_save_article ex_page_text ''now'' ''id'' True ''link1'' ex_fetcher
                               Missing)))
       = insert ''link1'' (saved_links ex_fetcher)
   \<and> saved_links (fst (snd (nf_save_article ex_page_text ''now'' ''id'' True ''link1'' ex_fetcher
                               Missing)))
       = sa_sourceUrl ` set (load_saved_articles
           (snd (snd (nf_save_article ex_page_text ''now'' ''id'' True ''link1'' ex_fetcher Missing))))
   \<and> snd (snd (save_article_endpoint ex_page_text ''now'' True ''link9'' ex_state Missing)) = Missing
   \<and> app_saved_links (fst (snd (save_article_endpoint ex_page_text ''now'' True ''link9'' ex_state
                                   Missing)))
       = app_saved_links ex_state"
proof -
  have nfs: "news ex_fetcher = app_news ex_state" "saved_links ex_fetcher = {}"
    by (simp_all add: ex_fetcher_def ex_state_def nf_init_def load_saved_links_def)
  have links: "link ` set (app_news ex_state) = {''link1'', ''link2''}"
    by (simp add: ex_state_def ex_item_def)
  have empty: "sa_sourceUrl ` set (load_saved_articles Missing) = {}"
    by (simp add: load_saved_articles_def)
  have h1: "[] \<notin> sa_sourceUrl ` set (load_saved_articles Missing)"
    unfolding empty by simp
  have ok: "\<exists>a. fst (nf_save_article ex_page_text ''now'' ''id'' True ''link1'' ex_fetcher Missing)
          = SaveSuccess a"
    unfolding nf_archive_iff [of Missing True ex_page_text "''now''" "''id''" "''link1''" ex_fetcher,
        simplified]
    unfolding nfs links empty by (simp add: ex_page_text_def)
  have eq0: "saved_links ex_fetcher = sa_sourceUrl ` set (load_saved_articles Missing)"
    unfolding nfs empty by simp
  have nine: "snd (snd (save_article_endpoint ex_page_text ''now'' True ''link9'' ex_state Missing))
      = Missing"
    using app_save_not_found [of "''link9''" ex_state ex_page_text "''now''" True Missing]
    unfolding links by simp
  note t1 = saved_links_index [where m = 500 and sel = "[''a'', ''b'']" and f = Missing
      and ptext = ex_page_text and n = "''now''" and u = "''id''" and w = True
      and lnk = "''link1''" and self = ex_fetcher and s = ex_state]
  note t9 = saved_links_index [where m = 500 and sel = "[''a'', ''b'']" and f = Missing
      and ptext = ex_page_text and n = "''now''" and u = "''id''" and w = True
      and lnk = "''link9''" and self = ex_fetcher and s = ex_state]
  note r3 = t1 [THEN conjunct2, THEN conjunct2]
  note r4 = r3 [THEN conjunct2]
  note r6 = r4 [THEN conjunct2, THEN conjunct2]
  note q8 = t9 [THEN conjunct2, THEN conjunct2, THEN conjunct2, THEN conjunct2, THEN conjunct2,
      THEN conjunct2, THEN conjunct2]
  show ?thesis
    by (intro conjI h1 r3 [THEN conjunct1, THEN mp, OF h1] ok eq0
        r4 [THEN conjunct1, THEN mp, OF ok, THEN conjunct1]
        r6 [THEN conjunct1, THEN mp, OF eq0] nine
        q8 [THEN conjunct1, THEN mp, OF nine])
qed

theorem saved_links_index_counterexample:
  "saved_links (nf_init 500 [''a'', ''b''] ex_blank_file) = {}
   \<and> sa_sourceUrl ` set (load_saved_articles ex_blank_file) = {[]}
   \<and> saved_links (nf_init 500 [''a'', ''b''] ex_blank_file)
       \<noteq> sa_sourceUrl ` set (load_saved_articles ex_blank_file)"
  by (simp add: nf_init_def load_saved_links_def load_saved_articles_def ex_blank_file_def)

end
